theory Spec2Isabelle
  imports Main "HOL-Library.AList"
begin


section \<open>JavaScript values\<close>

text \<open>
  Documents, update expressions and query parameters are JavaScript values. The model
  keeps the cases the code distinguishes: \<open>undefined\<close>, \<open>null\<close>, booleans, numbers,
  strings, arrays, plain objects (own enumerable properties in enumeration order),
  \<open>ObjectId\<close> (by its 24-digit hex string) and \<open>Date\<close> (by its millisecond value).
  A finite number is a double without fractional part, carried as the integer it denotes;
  \<open>NaN\<close> is a value of its own, since the code tests for it. Fractions and the two
  infinities are outside the model. Strings are sequences of code units below 256. Values are trees:
  no object is shared between two places of a document or between an update expression
  and its target.
\<close>

datatype jsval =
    JUndefined
  | JNull
  | JBool bool
  | JNum int
  | JNaN
  | JStr string
  | JArr "jsval list"
  | JObj "(string \<times> jsval) list"
  | JObjectId string
  | JDate int

text \<open>
  A thrown exception is a value. \<open>Error\<close> carries the message of \<open>throw Error(...)\<close>;
  \<open>Unmodelled\<close> marks a JavaScript behaviour the model does not reproduce.
\<close>

datatype error =
    Error string
  | TypeError string
  | SyntaxError string
  | RedisError
  | Unmodelled string

text \<open>\<open>!v\<close> is \<open>\<not> truthy v\<close>.\<close>

fun truthy :: "jsval \<Rightarrow> bool" where
  "truthy JUndefined = False"
| "truthy JNull = False"
| "truthy (JBool b) = b"
| "truthy (JNum n) = (n \<noteq> 0)"
| "truthy JNaN = False"
| "truthy (JStr s) = (s \<noteq> [])"
| "truthy (JArr xs) = True"
| "truthy (JObj fs) = True"
| "truthy (JObjectId h) = True"
| "truthy (JDate ms) = True"

text \<open>\<open>typeof v === 'object'\<close>\<close>

fun typeof_object :: "jsval \<Rightarrow> bool" where
  "typeof_object JNull = True"
| "typeof_object (JArr xs) = True"
| "typeof_object (JObj fs) = True"
| "typeof_object (JObjectId h) = True"
| "typeof_object (JDate ms) = True"
| "typeof_object v = False"

text \<open>\<open>typeof v === 'number'\<close>\<close>

fun typeof_number :: "jsval \<Rightarrow> bool" where
  "typeof_number (JNum n) = True"
| "typeof_number JNaN = True"
| "typeof_number v = False"

fun isArray :: "jsval \<Rightarrow> bool" where
  "isArray (JArr xs) = True"
| "isArray v = False"

subsection \<open>Arithmetic of doubles\<close>

text \<open>The number of binary digits of a positive integer.\<close>

function bit_length :: "int \<Rightarrow> nat" where
  "bit_length n = (if n \<le> 0 then 0 else Suc (bit_length (n div 2)))"
  by pat_completeness auto
termination
  by (relation "measure nat") auto

declare bit_length.simps [simp del]

text \<open>
  \<open>round_double n\<close> is the double nearest to the integer \<open>n\<close>: a double has 53
  significant binary digits, so an integer of more digits is rounded to a multiple of
  the power of two that leaves 53 of them, a tie going to the even multiple. Integers of
  magnitude up to \<open>2 ^ 53\<close> are doubles themselves.
\<close>

definition round_double :: "int \<Rightarrow> int" where
  "round_double n =
     (let m = \<bar>n\<bar>;
          q = 2 ^ (bit_length m - 53);
          lo = m div q;
          r = m mod q
      in sgn n * (q * (if q < 2 * r \<or> (2 * r = q \<and> odd lo) then lo + 1 else lo)))"

text \<open>
  The result of an operation on two numbers, from its exact value: the nearest double,
  which is \<open>Infinity\<close> or \<open>-Infinity\<close> from magnitude \<open>2 ^ 1024\<close> on. The infinities are not
  values of the model.
\<close>

definition number_result :: "int \<Rightarrow> error + jsval" where
  "number_result x =
     (if \<bar>round_double x\<bar> < 2 ^ 1024 then Inr (JNum (round_double x))
      else Inl (Unmodelled ''Infinity''))"

text \<open>\<open>a + b\<close> and \<open>a * b\<close> for two values of type number.\<close>

fun js_add :: "jsval \<Rightarrow> jsval \<Rightarrow> error + jsval" where
  "js_add (JNum a) (JNum b) = number_result (a + b)"
| "js_add a b = Inr JNaN"

fun js_mul :: "jsval \<Rightarrow> jsval \<Rightarrow> error + jsval" where
  "js_mul (JNum a) (JNum b) = number_result (a * b)"
| "js_mul a b = Inr JNaN"

subsection \<open>Decimal numerals\<close>

definition digit_char :: "nat \<Rightarrow> char" where
  "digit_char d = char_of (48 + d)"

function show_nat :: "nat \<Rightarrow> string" where
  "show_nat n = (if n < 10 then [digit_char n] else show_nat (n div 10) @ [digit_char (n mod 10)])"
  by pat_completeness auto
termination
  by (relation "measure id") auto

declare show_nat.simps [simp del]

definition show_int :: "int \<Rightarrow> string" where
  "show_int i = (if i < 0 then CHR ''-'' # show_nat (nat (- i)) else show_nat (nat i))"

subsection \<open>Own properties\<close>

text \<open>
  \<open>v[key]\<close> on own properties: a missing property reads as \<open>undefined\<close>. Properties
  inherited from a prototype are not modelled.
\<close>

fun fields_of :: "jsval \<Rightarrow> (string \<times> jsval) list" where
  "fields_of (JObj fs) = fs"
| "fields_of v = []"

definition field_of :: "jsval \<Rightarrow> string \<Rightarrow> jsval" where
  "field_of v k = (case map_of (fields_of v) k of None \<Rightarrow> JUndefined | Some x \<Rightarrow> x)"

text \<open>
  \<open>Object.entries(v)\<close>: the properties of a plain object, the indexed elements of an
  array, nothing for a number, a boolean or a date; \<open>null\<close> and \<open>undefined\<close> throw.
\<close>

fun object_entries :: "jsval \<Rightarrow> error + (string \<times> jsval) list" where
  "object_entries (JObj fs) = Inr fs"
| "object_entries (JArr xs) = Inr (zip (map show_nat [0..<length xs]) xs)"
| "object_entries (JStr s) = Inr (zip (map show_nat [0..<length s]) (map (\<lambda>c. JStr [c]) s))"
| "object_entries (JBool b) = Inr []"
| "object_entries (JNum n) = Inr []"
| "object_entries JNaN = Inr []"
| "object_entries (JDate ms) = Inr []"
| "object_entries (JObjectId h) = Inl (Unmodelled ''Object.entries of an ObjectId'')"
| "object_entries JUndefined = Inl (TypeError ''Cannot convert undefined or null to object'')"
| "object_entries JNull = Inl (TypeError ''Cannot convert undefined or null to object'')"

subsection \<open>Strings\<close>

text \<open>\<open>s.includes(p)\<close>\<close>

fun includes_str :: "string \<Rightarrow> string \<Rightarrow> bool" where
  "includes_str [] p = (p = [])"
| "includes_str (c # cs) p = (take (length p) (c # cs) = p \<or> includes_str cs p)"

text \<open>\<open>s.split(c)\<close> for a one-character separator.\<close>

fun split_on :: "char \<Rightarrow> string \<Rightarrow> string list" where
  "split_on c [] = [[]]"
| "split_on c (x # xs) =
     (if x = c then [] # split_on c xs
      else (case split_on c xs of [] \<Rightarrow> [[x]] | w # ws \<Rightarrow> (x # w) # ws))"


section \<open>UpdateOperatorEngine (mongoOperators.ts)\<close>

subsection \<open>Path helpers of ./lib\<close>

text \<open>
  Modelled from the spec: \<open>getValue\<close> of \<open>./lib\<close> is not in src. It reads the value at a
  dotted path, walking through nested plain objects; a missing step reads as
  \<open>undefined\<close>. Array elements are not addressed by index.
\<close>

fun get_path :: "jsval \<Rightarrow> string list \<Rightarrow> jsval" where
  "get_path v [] = v"
| "get_path v (k # ks) = get_path (field_of v k) ks"

definition getValue :: "jsval \<Rightarrow> string \<Rightarrow> jsval" where
  "getValue target path = get_path target (split_on CHR ''.'' path)"

text \<open>
  Modelled from the spec: \<open>setValue\<close> of \<open>./lib\<close> is not in src. It writes a value at a
  dotted path, keeping the position of an existing property, appending a new one,
  and creating the plain objects on the way.
\<close>

fun set_path :: "jsval \<Rightarrow> string list \<Rightarrow> jsval \<Rightarrow> jsval" where
  "set_path v [] x = x"
| "set_path v (k # ks) x = JObj (AList.update k (set_path (field_of v k) ks x) (fields_of v))"

definition setValue :: "jsval \<Rightarrow> string \<Rightarrow> jsval \<Rightarrow> jsval" where
  "setValue target path val = set_path target (split_on CHR ''.'' path) val"

text \<open>
  Modelled from the spec: \<open>unsetValue\<close> of \<open>./lib\<close> is not in src. It removes the
  property at a dotted path and returns the value it held (\<open>$rename\<close> uses it).
\<close>

fun unset_path :: "jsval \<Rightarrow> string list \<Rightarrow> jsval" where
  "unset_path v [] = v"
| "unset_path v [k] = (case v of JObj fs \<Rightarrow> JObj (AList.delete k fs) | _ \<Rightarrow> v)"
| "unset_path v (k # ks) =
     (case v of
        JObj fs \<Rightarrow>
          (case map_of fs k of
             None \<Rightarrow> v
           | Some c \<Rightarrow> JObj (AList.update k (unset_path c ks) fs))
      | _ \<Rightarrow> v)"

definition unsetValue :: "jsval \<Rightarrow> string \<Rightarrow> jsval \<times> jsval" where
  "unsetValue target path =
     (getValue target path, unset_path target (split_on CHR ''.'' path))"

text \<open>
  Modelled from the spec: \<open>updateValue\<close> of \<open>./lib\<close> is not in src. It replaces the value
  at a path by the callback's result for the current value (\<open>undefined\<close> when the path
  is missing); an exception of the callback leaves the call.
\<close>

definition updateValue ::
  "jsval \<Rightarrow> string \<Rightarrow> (jsval \<Rightarrow> error + jsval) \<Rightarrow> error + jsval" where
  "updateValue target path fn =
     (case fn (getValue target path) of
        Inl e \<Rightarrow> Inl e
      | Inr v \<Rightarrow> Inr (setValue target path v))"

subsection \<open>Comparisons\<close>

text \<open>
  \<open>a < b\<close> for the operands the model covers: two strings compare by code units,
  numbers, booleans, \<open>null\<close>, \<open>undefined\<close> and dates compare as numbers (\<open>NaN\<close>
  compares false). A string against a number, and arrays or objects, are not modelled.
\<close>

fun str_lt :: "string \<Rightarrow> string \<Rightarrow> bool" where
  "str_lt [] [] = False"
| "str_lt [] (y # ys) = True"
| "str_lt (x # xs) [] = False"
| "str_lt (x # xs) (y # ys) = ((of_char x :: nat) < of_char y \<or> (x = y \<and> str_lt xs ys))"

fun to_number :: "jsval \<Rightarrow> jsval option" where
  "to_number (JNum n) = Some (JNum n)"
| "to_number JNaN = Some JNaN"
| "to_number JUndefined = Some JNaN"
| "to_number JNull = Some (JNum 0)"
| "to_number (JBool b) = Some (JNum (if b then 1 else 0))"
| "to_number (JDate ms) = Some (JNum ms)"
| "to_number v = None"

fun js_lt :: "jsval \<Rightarrow> jsval \<Rightarrow> error + bool" where
  "js_lt (JStr a) (JStr b) = Inr (str_lt a b)"
| "js_lt a b =
     (case (to_number a, to_number b) of
        (Some (JNum x), Some (JNum y)) \<Rightarrow> Inr (x < y)
      | (Some x, Some y) \<Rightarrow> Inr False
      | _ \<Rightarrow> Inl (Unmodelled ''relational comparison''))"

text \<open>
  \<open>found.includes(val)\<close> compares by SameValueZero: primitives by value (\<open>NaN\<close> equals
  \<open>NaN\<close>), arrays, objects, dates and ObjectIds by reference. The operand of an update
  and the elements of a target's array are distinct objects, so two of them are never
  the same reference.
\<close>

fun is_primitive :: "jsval \<Rightarrow> bool" where
  "is_primitive (JArr xs) = False"
| "is_primitive (JObj fs) = False"
| "is_primitive (JObjectId h) = False"
| "is_primitive (JDate ms) = False"
| "is_primitive v = True"

definition sameValueZero :: "jsval \<Rightarrow> jsval \<Rightarrow> bool" where
  "sameValueZero a b = (is_primitive a \<and> a = b)"

definition array_includes :: "jsval list \<Rightarrow> jsval \<Rightarrow> bool" where
  "array_includes found val = list_ex (\<lambda>x. sameValueZero x val) found"

subsection \<open>The operator handlers\<close>

type_synonym handler = "jsval \<Rightarrow> string \<Rightarrow> jsval \<Rightarrow> error + jsval"

text \<open>The operand of \<open>$inc\<close> as a number (the immediately invoked function of \<open>$inc\<close>).\<close>

fun inc_num :: "jsval \<Rightarrow> error + jsval" where
  "inc_num (JNum n) = Inr (JNum n)"
| "inc_num (JBool True) = Inr (JNum 1)"
| "inc_num (JBool False) = Inr (JNum 0)"
| "inc_num (JDate ms) = Inr (JNum ms)"
| "inc_num v = Inl (Error ''$inc amount must be a numeric type'')"

definition handlers_inc :: handler where
  "handlers_inc target path val =
     (case inc_num val of
        Inl e \<Rightarrow> Inl e
      | Inr num \<Rightarrow>
          updateValue target path
            (\<lambda>found.
               if found = JUndefined then Inr val
               else if typeof_number found then js_add found num
               else Inl (Error ''$inc target field must be a numeric type'')))"

definition handlers_min :: handler where
  "handlers_min target path val =
     (case js_lt val (getValue target path) of
        Inl e \<Rightarrow> Inl e
      | Inr b \<Rightarrow> Inr (if b then setValue target path val else target))"

definition handlers_max :: handler where
  "handlers_max target path val =
     (case js_lt (getValue target path) val of
        Inl e \<Rightarrow> Inl e
      | Inr b \<Rightarrow> Inr (if b then setValue target path val else target))"

definition handlers_mul :: handler where
  "handlers_mul target path val =
     (if \<not> typeof_number val then Inl (Error ''$mul target field must be a number'')
      else
        updateValue target path
          (\<lambda>found.
             if found = JUndefined then Inr (JNum 0)
             else if typeof_number found then js_mul found val
             else Inl (Error ''$mul target field must be a numeric type'')))"

definition handlers_rename :: handler where
  "handlers_rename target path val =
     (case val of
        JStr dest \<Rightarrow>
          (case unsetValue target path of (found, target') \<Rightarrow> Inr (setValue target' dest found))
      | _ \<Rightarrow> Inl (Error ''$rename target field must be a string''))"

definition handlers_set :: handler where
  "handlers_set target path val = Inr (setValue target path val)"

definition handlers_setOnInsert :: handler where
  "handlers_setOnInsert target path val = Inr target"

definition handlers_unset :: handler where
  "handlers_unset target path val = Inr (snd (unsetValue target path))"

definition handlers_addToSet :: handler where
  "handlers_addToSet target path val =
     (case getValue target path of
        JUndefined \<Rightarrow> Inr (setValue target path (JArr [val]))
      | JArr found \<Rightarrow>
          Inr (if \<not> array_includes found val then setValue target path (JArr (found @ [val]))
               else target)
      | _ \<Rightarrow> Inl (Error ''$addToSet target field must be an array''))"

definition handlers_pop :: handler where
  "handlers_pop target path val =
     (case getValue target path of
        JUndefined \<Rightarrow> Inr target
      | JArr found \<Rightarrow>
          (if val = JNum 1 \<or> val = JBool True then Inr (setValue target path (JArr (tl found)))
           else if val = JNum (- 1) then Inr (setValue target path (JArr (butlast found)))
           else Inl (Error ''$pop value must be 1 or -1''))
      | _ \<Rightarrow> Inl (Error ''$pop target field must be an array''))"

definition handlers_push :: handler where
  "handlers_push target path val =
     (case getValue target path of
        JUndefined \<Rightarrow> Inr (setValue target path (JArr [val]))
      | JArr found \<Rightarrow> Inr (setValue target path (JArr (found @ [val])))
      | _ \<Rightarrow> Inl (Error ''$push target field must be an array''))"

definition operators :: "string list" where
  "operators =
     [''$inc'', ''$min'', ''$max'', ''$mul'', ''$rename'', ''$set'', ''$setOnInsert'',
      ''$unset'', ''$addToSet'', ''$pop'', ''$push'']"

definition isSupportedOperator :: "string \<Rightarrow> bool" where
  "isSupportedOperator name = (name \<in> set operators)"

definition handlers :: "string \<Rightarrow> handler" where
  "handlers op =
     (if op = ''$inc'' then handlers_inc
      else if op = ''$min'' then handlers_min
      else if op = ''$max'' then handlers_max
      else if op = ''$mul'' then handlers_mul
      else if op = ''$rename'' then handlers_rename
      else if op = ''$set'' then handlers_set
      else if op = ''$setOnInsert'' then handlers_setOnInsert
      else if op = ''$unset'' then handlers_unset
      else if op = ''$addToSet'' then handlers_addToSet
      else if op = ''$pop'' then handlers_pop
      else handlers_push)"

subsection \<open>Parsing an update expression\<close>

text \<open>A \<open>forEach\<close> whose body may throw: the first exception leaves the loop.\<close>

fun forEachE :: "('a \<Rightarrow> 's \<Rightarrow> error + 's) \<Rightarrow> 'a list \<Rightarrow> 's \<Rightarrow> error + 's" where
  "forEachE f [] s = Inr s"
| "forEachE f (x # xs) s = (case f x s of Inl e \<Rightarrow> Inl e | Inr s' \<Rightarrow> forEachE f xs s')"

fun mapE :: "('a \<Rightarrow> error + 'b) \<Rightarrow> 'a list \<Rightarrow> error + 'b list" where
  "mapE f [] = Inr []"
| "mapE f (x # xs) =
     (case f x of
        Inl e \<Rightarrow> Inl e
      | Inr y \<Rightarrow> (case mapE f xs of Inl e \<Rightarrow> Inl e | Inr ys \<Rightarrow> Inr (y # ys)))"

text \<open>
  The parsed update \<open>result\<close> is an object from operator names to their path objects,
  in insertion order.
\<close>

type_synonym parsed_update = "(string \<times> jsval) list"

definition addFieldToSetOp :: "string \<Rightarrow> jsval \<Rightarrow> parsed_update \<Rightarrow> parsed_update" where
  "addFieldToSetOp key val result =
     (let r = (if \<not> truthy (field_of (JObj result) ''$set'')
               then AList.update ''$set'' (JObj []) result else result)
      in AList.update ''$set''
           (JObj (AList.update key val (fields_of (field_of (JObj r) ''$set'')))) r)"

definition assertOperatorIsValid :: "string \<Rightarrow> jsval \<Rightarrow> error + unit" where
  "assertOperatorIsValid key val =
     (if \<not> truthy val \<or> \<not> typeof_object val
      then Inl (Error (''Invalid operator value for '' @ key)) else Inr ())"

definition parse_entry :: "string \<times> jsval \<Rightarrow> parsed_update \<Rightarrow> error + parsed_update" where
  "parse_entry kv result =
     (case kv of (key, val) \<Rightarrow>
        if take 1 key \<noteq> ''$'' then Inr (addFieldToSetOp key val result)
        else if isSupportedOperator key then
          (if \<not> truthy val then Inr result
           else
             (case assertOperatorIsValid key val of
                Inl e \<Rightarrow> Inl e
              | Inr u \<Rightarrow>
                  if key = ''$set'' then
                    (case object_entries val of
                       Inl e \<Rightarrow> Inl e
                     | Inr es \<Rightarrow> Inr (fold (\<lambda>(setKey, setVal). addFieldToSetOp setKey setVal) es result))
                  else Inr (AList.update key val result)))
        else Inl (Error (''Unsupported update operator '' @ key)))"

definition parseUpdateQuery :: "jsval \<Rightarrow> error + parsed_update" where
  "parseUpdateQuery input =
     (if \<not> truthy input then Inr []
      else if isArray input
      then Inl (Error ''Updating with aggregation pipeline is not supported'')
      else
        (case object_entries input of
           Inl e \<Rightarrow> Inl e
         | Inr es \<Rightarrow> forEachE parse_entry es []))"

definition buildUpsertedDocument :: "jsval \<Rightarrow> parsed_update \<Rightarrow> jsval" where
  "buildUpsertedDocument flt update = JObj []"

subsection \<open>applyUpdates\<close>

record ApplyUpdatesOptions =
  opt_update :: jsval
  opt_filter :: "jsval option"
  opt_upsert :: "bool option"

definition apply_path :: "handler \<Rightarrow> string \<times> jsval \<Rightarrow> jsval list \<Rightarrow> error + jsval list" where
  "apply_path h pv targets =
     (case pv of (path, val) \<Rightarrow>
        if val = JUndefined then Inr targets
        else if includes_str path ''.$''
        then Inl (Error ''Updating arrays with <field>.$ is unsupported'')
        else mapE (\<lambda>target. h target path val) targets)"

definition apply_op :: "string \<times> jsval \<Rightarrow> jsval list \<Rightarrow> error + jsval list" where
  "apply_op opv targets =
     (case opv of (op, paths) \<Rightarrow>
        if \<not> isSupportedOperator op then Inl (Error (''Unsupported update operator '' @ op))
        else
          (case object_entries paths of
             Inl e \<Rightarrow> Inl e
           | Inr ps \<Rightarrow> forEachE (apply_path (handlers op)) ps targets))"

text \<open>
  \<open>applyUpdates\<close> mutates the targets and returns \<open>null\<close> or the upserted document:
  the model returns the targets after the call together with the returned value.
\<close>

definition applyUpdates ::
  "jsval list \<Rightarrow> ApplyUpdatesOptions \<Rightarrow> error + (jsval list \<times> jsval)" where
  "applyUpdates targets options =
     (let rawUpdate = opt_update options;
          flt = (case opt_filter options of None \<Rightarrow> JObj [] | Some f \<Rightarrow> f);
          upsert = (case opt_upsert options of None \<Rightarrow> False | Some u \<Rightarrow> u)
      in case parseUpdateQuery rawUpdate of
           Inl e \<Rightarrow> Inl e
         | Inr update \<Rightarrow>
             if length targets = 0 then
               (if \<not> upsert then Inr (targets, JNull)
                else Inr (targets, buildUpsertedDocument flt update))
             else
               (case forEachE apply_op update targets of
                  Inl e \<Rightarrow> Inl e
                | Inr targets' \<Rightarrow> Inr (targets', JNull)))"

text \<open>The options of a call that carries the single operation \<open>{$inc: {path: val}}\<close>.\<close>

definition inc_update :: "string \<Rightarrow> jsval \<Rightarrow> ApplyUpdatesOptions" where
  "inc_update path val =
     \<lparr>opt_update = JObj [(''$inc'', JObj [(path, val)])], opt_filter = None, opt_upsert = None\<rparr>"

text \<open>The options of a call that carries the single operation \<open>{$addToSet: {path: val}}\<close>.\<close>

definition addToSet_update :: "string \<Rightarrow> jsval \<Rightarrow> ApplyUpdatesOptions" where
  "addToSet_update path val =
     \<lparr>opt_update = JObj [(''$addToSet'', JObj [(path, val)])], opt_filter = None,
      opt_upsert = None\<rparr>"

section \<open>CacheKeyCodec: EJSON.stringify\<close>

text \<open>
  \<open>getCacheKey\<close> encodes the parameter tuple with \<open>EJSON.stringify\<close> of the bson package
  (default options: relaxed mode), which is \<open>JSON.stringify\<close> of \<open>EJSON.serialize\<close>.
  Neither is code of this repository; they are modelled as the libraries behave on the
  values of the model. Numbers are safe integers, printed in decimal. A plain object
  has no property \<open>_bsontype\<close>.
\<close>

subsection \<open>Dates in ISO 8601\<close>

definition pad :: "nat \<Rightarrow> nat \<Rightarrow> string" where
  "pad w n = replicate (w - length (show_nat n)) CHR ''0'' @ show_nat n"

text \<open>The civil date (year, month, day) of a day number counted from 1970-01-01.\<close>

definition civil_from_days :: "int \<Rightarrow> int \<times> int \<times> int" where
  "civil_from_days z0 =
     (let z = z0 + 719468;
          era = z div 146097;
          doe = z mod 146097;
          yoe = (doe - doe div 1460 + doe div 36524 - doe div 146096) div 365;
          y = yoe + era * 400;
          doy = doe - (365 * yoe + yoe div 4 - yoe div 100);
          mp = (5 * doy + 2) div 153;
          d = doy - (153 * mp + 2) div 5 + 1;
          m = (if mp < 10 then mp + 3 else mp - 9)
      in (if m \<le> 2 then y + 1 else y, m, d))"

text \<open>\<open>date.toISOString()\<close> of a valid date.\<close>

definition toISOString :: "int \<Rightarrow> string" where
  "toISOString ms =
     (let t = ms mod 86400000;
          ymd = civil_from_days (ms div 86400000);
          y = fst ymd
      in (if 0 \<le> y \<and> y \<le> 9999 then pad 4 (nat y)
          else (if y < 0 then CHR ''-'' else CHR ''+'') # pad 6 (nat \<bar>y\<bar>))
         @ ''-'' @ pad 2 (nat (fst (snd ymd))) @ ''-'' @ pad 2 (nat (snd (snd ymd)))
         @ ''T'' @ pad 2 (nat (t div 3600000)) @ '':'' @ pad 2 (nat (t div 60000 mod 60))
         @ '':'' @ pad 2 (nat (t div 1000 mod 60)) @ ''.'' @ pad 3 (nat (t mod 1000)) @ ''Z'')"

text \<open>bson's \<open>getISOString\<close>: the milliseconds are shown only when they are not zero.\<close>

definition getISOString :: "int \<Rightarrow> string" where
  "getISOString ms =
     (let isoStr = toISOString ms
      in if ms mod 1000 \<noteq> 0 then isoStr else take (length isoStr - 5) isoStr @ ''Z'')"

subsection \<open>EJSON.serialize, relaxed\<close>

primrec serializeValue :: "jsval \<Rightarrow> jsval" where
  "serializeValue JUndefined = JNull"
| "serializeValue JNull = JNull"
| "serializeValue (JBool b) = JBool b"
| "serializeValue (JNum n) = JNum n"
| "serializeValue JNaN = JObj [(''$numberDouble'', JStr ''NaN'')]"
| "serializeValue (JStr s) = JStr s"
| "serializeValue (JArr xs) = JArr (map serializeValue xs)"
| "serializeValue (JObj fs) = JObj (map (map_prod id serializeValue) fs)"
| "serializeValue (JObjectId h) = JObj [(''$oid'', JStr h)]"
| "serializeValue (JDate ms) =
     (if ms > - 1 \<and> ms < 253402318800000
      then JObj [(''$date'', JStr (getISOString ms))]
      else JObj [(''$date'', JObj [(''$numberLong'', JStr (show_int ms))])])"

subsection \<open>JSON.stringify\<close>

definition hex_digit :: "nat \<Rightarrow> char" where
  "hex_digit d = (if d < 10 then char_of (48 + d) else char_of (87 + d))"

text \<open>QuoteJSONString, one code unit at a time.\<close>

definition json_escape :: "char \<Rightarrow> string" where
  "json_escape c =
     (if c = CHR 0x22 then [CHR 0x5C, CHR 0x22]
      else if c = CHR 0x5C then [CHR 0x5C, CHR 0x5C]
      else if c = CHR 0x08 then [CHR 0x5C, CHR ''b'']
      else if c = CHR 0x09 then [CHR 0x5C, CHR ''t'']
      else if c = CHR 0x0A then [CHR 0x5C, CHR ''n'']
      else if c = CHR 0x0C then [CHR 0x5C, CHR ''f'']
      else if c = CHR 0x0D then [CHR 0x5C, CHR ''r'']
      else if (of_char c :: nat) < 32
      then [CHR 0x5C, CHR ''u'', CHR ''0'', CHR ''0'',
            hex_digit (of_char c div 16), hex_digit (of_char c mod 16)]
      else [c])"

definition json_quote :: "string \<Rightarrow> string" where
  "json_quote s = CHR 0x22 # concat (map json_escape s) @ [CHR 0x22]"

fun commas :: "string list \<Rightarrow> string" where
  "commas [] = []"
| "commas [x] = x"
| "commas (x # y # ys) = x @ CHR '','' # commas (y # ys)"

definition json_member :: "string \<times> string option \<Rightarrow> string option" where
  "json_member kt = map_option (\<lambda>t. json_quote (fst kt) @ CHR '':'' # t) (snd kt)"

definition json_element :: "string option \<Rightarrow> string" where
  "json_element t = (case t of None \<Rightarrow> ''null'' | Some s \<Rightarrow> s)"

text \<open>
  \<open>JSON.stringify(v)\<close> without indentation; \<open>None\<close> is the result \<open>undefined\<close>. An
  \<open>undefined\<close> element of an array prints as \<open>null\<close>, an \<open>undefined\<close> property is left
  out; a date and an ObjectId print through their \<open>toJSON\<close>.
\<close>

primrec json_stringify :: "jsval \<Rightarrow> string option" where
  "json_stringify JUndefined = None"
| "json_stringify JNull = Some ''null''"
| "json_stringify (JBool b) = Some (if b then ''true'' else ''false'')"
| "json_stringify (JNum n) = Some (show_int n)"
| "json_stringify JNaN = Some ''null''"
| "json_stringify (JStr s) = Some (json_quote s)"
| "json_stringify (JArr xs) =
     Some (CHR ''['' # commas (map json_element (map json_stringify xs)) @ '']'')"
| "json_stringify (JObj fs) =
     Some (CHR ''{'' # commas (List.map_filter json_member (map (map_prod id json_stringify) fs))
           @ ''}'')"
| "json_stringify (JObjectId h) = Some (json_quote h)"
| "json_stringify (JDate ms) = Some (json_quote (toISOString ms))"

text \<open>\<open>EJSON.stringify(v)\<close>, as a template literal interpolates it.\<close>

definition EJSON_stringify :: "jsval \<Rightarrow> string" where
  "EJSON_stringify v =
     (case json_stringify (serializeValue v) of None \<Rightarrow> ''undefined'' | Some s \<Rightarrow> s)"

section \<open>Cached query definitions (CachedQuery/index.ts)\<close>

text \<open>
  A number that may be \<open>Infinity\<close>: \<open>cacheCount\<close>, \<open>skip\<close> and \<open>limit\<close>.
\<close>

datatype count = Finite int | Infinity

text \<open>
  The query of a definition is a static filter or a function of the parameters; a
  function carries its declared number of parameters (\<open>query.length\<close>).
\<close>

datatype query_def = StaticQuery jsval | QueryFn nat "jsval list \<Rightarrow> jsval"

text \<open>
  The configuration type of \<open>./config\<close> is not in src; these are the fields the code
  reads from \<open>this.config\<close>.
\<close>

record CachedQueryConfig =
  model :: string
  query :: query_def
  unique :: bool
  invalidateOnInsert :: bool
  rehydrate :: bool
  cacheCount :: count
  expiry :: nat
  select :: "jsval option"
  sort_by :: "jsval option"
  populate :: "jsval list"

text \<open>
  The classification of a definition (the classifier is not in src): \<open>matcher\<close>,
  \<open>dynamicKeys\<close> and \<open>complexQuery\<close>, as \<open>getInsertInvalidation\<close> reads them.
\<close>

record Classification =
  matcher :: "jsval \<Rightarrow> bool"
  dynamicKeys :: "string list"
  complexQuery :: bool

text \<open>
  A cached query: its configuration, its identity hash (\<open>jsonHash\<close> of \<open>./utils\<close> is not
  in src, so the hash is a field) and its classification.
\<close>

record CachedQuery =
  config :: CachedQueryConfig
  hash :: string
  classification :: Classification

definition expectNumParams :: "CachedQuery \<Rightarrow> nat" where
  "expectNumParams cq = (case query (config cq) of QueryFn n f \<Rightarrow> n | StaticQuery q \<Rightarrow> 0)"

definition getCacheKey :: "CachedQuery \<Rightarrow> jsval list \<Rightarrow> error + string" where
  "getCacheKey cq params =
     (if expectNumParams cq \<noteq> length params
      then Inl (Error (''Invalid number of params passed: expected ''
                       @ show_nat (expectNumParams cq) @ '', got '' @ show_nat (length params)))
      else Inr (''Q:'' @ hash cq @ EJSON_stringify (JArr params)))"

section \<open>QueryClassifier: getInsertInvalidation\<close>

text \<open>
  The result \<open>{hash, all: true}\<close> is \<open>InvalidateAll hash\<close>, the result \<open>{hash, key}\<close> is
  \<open>InvalidateKey hash key\<close>, and \<open>null\<close> is \<open>None\<close>.
\<close>

datatype InsertInvalidation = InvalidateAll string | InvalidateKey string string

definition getInsertInvalidation ::
  "CachedQuery \<Rightarrow> string \<Rightarrow> jsval \<Rightarrow> error + InsertInvalidation option" where
  "getInsertInvalidation cq modelName doc =
     (if unique (config cq) \<or> \<not> invalidateOnInsert (config cq) \<or> model (config cq) \<noteq> modelName
      then Inr None
      else
        let docCouldMatchQuery = matcher (classification cq) doc
        in if \<not> docCouldMatchQuery then Inr None
           else if complexQuery (classification cq) then Inr (Some (InvalidateAll (hash cq)))
           else
             let params = map (\<lambda>key. field_of doc key) (dynamicKeys (classification cq))
             in (case getCacheKey cq params of
                   Inl e \<Rightarrow> Inl e
                 | Inr key \<Rightarrow> Inr (Some (InvalidateKey (hash cq) key))))"

text \<open>
  Two definitions of the kind the specification uses as examples: users by
  organisation, \<open>{model: "User", query: id => ({orgId: id}), cacheCount: 50}\<close>, whose
  filter is an equality on its parameter, and adult users,
  \<open>{model: "User", query: {age: {$gt: 18}}}\<close>, whose filter is a range.
\<close>

definition usersByOrg :: CachedQuery where
  "usersByOrg =
     \<lparr>config =
        \<lparr>model = ''User'',
         query = QueryFn 1 (\<lambda>ps. JObj [(''orgId'', case ps of [] \<Rightarrow> JUndefined | p # _ \<Rightarrow> p)]),
         unique = False, invalidateOnInsert = True, rehydrate = False,
         cacheCount = Finite 50, expiry = 3600, select = None, sort_by = None, populate = []\<rparr>,
      hash = ''h1'',
      classification =
        \<lparr>matcher = (\<lambda>doc. True), dynamicKeys = [''orgId''], complexQuery = False\<rparr>\<rparr>"

definition adultUsers :: CachedQuery where
  "adultUsers =
     \<lparr>config =
        \<lparr>model = ''User'',
         query = StaticQuery (JObj [(''age'', JObj [(''$gt'', JNum 18)])]),
         unique = False, invalidateOnInsert = True, rehydrate = False,
         cacheCount = Infinity, expiry = 3600, select = None, sort_by = None, populate = []\<rparr>,
      hash = ''h2'',
      classification =
        \<lparr>matcher = (\<lambda>doc. case field_of doc ''age'' of JNum n \<Rightarrow> 18 < n | _ \<Rightarrow> True),
         dynamicKeys = [], complexQuery = True\<rparr>\<rparr>"

section \<open>The key/set store\<close>

text \<open>
  The store holds, under a key, a record of named fields or a set of members, and a
  time to live per key. A field holds a serialized array of documents or a string.
  Documents are of a type \<open>'d\<close> (the code is generic in \<open>T extends HasObjectId\<close>);
  BSON serialization followed by deserialization gives the documents back. Every call
  to the store and to the source of truth is appended to a trace.
\<close>

datatype 'd hval = HBson "'d list" | HStr string

datatype 'd redis_val = RHash "(string \<times> 'd hval) list" | RSet "string list"

record FindRequest =
  find_model :: string
  find_filter :: jsval
  find_sort :: "jsval option"
  find_skip :: "count option"
  find_limit :: "count option"
  find_select :: "jsval option"
  find_populate :: "jsval list"

datatype event =
    HGetBuffer string string
  | SUnion "string list"
  | MultiExec "string list"
  | MongoFind FindRequest

record 'd world =
  store :: "string \<Rightarrow> 'd redis_val option"
  ttl :: "string \<Rightarrow> nat option"
  redis_up :: bool
  trace :: "event list"

text \<open>
  The commands the code queues in a transaction. \<open>del\<close>, \<open>hset\<close> and \<open>sadd\<close> are Redis
  commands; \<open>expiregt\<close> and \<open>delquery\<close> are commands the repository defines outside src.
\<close>

datatype 'd cmd =
    Del string
  | HSet string string "'d hval"
  | SAdd string string
  | ExpireGT string nat
  | DelQuery string

fun cmd_key :: "'d cmd \<Rightarrow> string" where
  "cmd_key (Del k) = k"
| "cmd_key (HSet k f v) = k"
| "cmd_key (SAdd k m) = k"
| "cmd_key (ExpireGT k e) = k"
| "cmd_key (DelQuery k) = k"

text \<open>A reply of a queued command: the pair \<open>[err, value]\<close>.\<close>

datatype reply = ReplyErr | ReplyInt int

definition del_key :: "string \<Rightarrow> 'd world \<Rightarrow> reply \<times> 'd world" where
  "del_key k w =
     (ReplyInt (if store w k = None then 0 else 1),
      w\<lparr>store := (store w)(k := None), ttl := (ttl w)(k := None)\<rparr>)"

definition hset :: "string \<Rightarrow> string \<Rightarrow> 'd hval \<Rightarrow> 'd world \<Rightarrow> reply \<times> 'd world" where
  "hset k f v w =
     (case store w k of
        None \<Rightarrow> (ReplyInt 1, w\<lparr>store := (store w)(k \<mapsto> RHash [(f, v)])\<rparr>)
      | Some (RHash fs) \<Rightarrow>
          (ReplyInt (if map_of fs f = None then 1 else 0),
           w\<lparr>store := (store w)(k \<mapsto> RHash (AList.update f v fs))\<rparr>)
      | Some (RSet ms) \<Rightarrow> (ReplyErr, w))"

definition sadd :: "string \<Rightarrow> string \<Rightarrow> 'd world \<Rightarrow> reply \<times> 'd world" where
  "sadd k m w =
     (case store w k of
        None \<Rightarrow> (ReplyInt 1, w\<lparr>store := (store w)(k \<mapsto> RSet [m])\<rparr>)
      | Some (RSet ms) \<Rightarrow>
          (ReplyInt (if m \<in> set ms then 0 else 1),
           w\<lparr>store := (store w)(k \<mapsto> RSet (if m \<in> set ms then ms else ms @ [m]))\<rparr>)
      | Some (RHash fs) \<Rightarrow> (ReplyErr, w))"

text \<open>
  Modelled from the spec: the command \<open>expiregt\<close> is not in src. It sets the relative
  expiry of an existing key, never lowering the one it has.
\<close>

definition expiregt :: "string \<Rightarrow> nat \<Rightarrow> 'd world \<Rightarrow> reply \<times> 'd world" where
  "expiregt k e w =
     (if store w k = None then (ReplyInt 0, w)
      else (ReplyInt 1,
            w\<lparr>ttl := (ttl w)(k \<mapsto> (case ttl w k of None \<Rightarrow> e | Some t \<Rightarrow> max t e))\<rparr>))"

text \<open>
  Modelled from the spec: the command \<open>delquery\<close> is not in src. It deletes a key and
  reports whether the key existed; deleting a key that does not exist changes nothing
  and is no error.
\<close>

definition delquery :: "string \<Rightarrow> 'd world \<Rightarrow> reply \<times> 'd world" where
  "delquery k w = del_key k w"

fun run_cmd :: "'d cmd \<Rightarrow> 'd world \<Rightarrow> reply \<times> 'd world" where
  "run_cmd (Del k) w = del_key k w"
| "run_cmd (HSet k f v) w = hset k f v w"
| "run_cmd (SAdd k m) w = sadd k m w"
| "run_cmd (ExpireGT k e) w = expiregt k e w"
| "run_cmd (DelQuery k) w = delquery k w"

fun run_cmds :: "'d cmd list \<Rightarrow> 'd world \<Rightarrow> reply list \<times> 'd world" where
  "run_cmds [] w = ([], w)"
| "run_cmds (c # cs) w =
     (case run_cmd c w of (r, w') \<Rightarrow> (case run_cmds cs w' of (rs, w'') \<Rightarrow> (r # rs, w'')))"

definition log_event :: "event \<Rightarrow> 'd world \<Rightarrow> 'd world" where
  "log_event ev w = w\<lparr>trace := trace w @ [ev]\<rparr>"

text \<open>
  \<open>multi.exec()\<close>: the queued commands run as one atomic batch and each reports its
  reply; when the store cannot be reached the call is rejected and nothing runs.
\<close>

definition multi_exec :: "'d cmd list \<Rightarrow> 'd world \<Rightarrow> (error + reply list) \<times> 'd world" where
  "multi_exec cmds w =
     (let w1 = log_event (MultiExec (map cmd_key cmds)) w
      in if \<not> redis_up w then (Inl RedisError, w1)
         else (case run_cmds cmds w1 of (rs, w2) \<Rightarrow> (Inr rs, w2)))"

text \<open>\<open>redis.hgetBuffer(key, field)\<close>: \<open>null\<close> is \<open>None\<close>.\<close>

definition hgetBuffer ::
  "string \<Rightarrow> string \<Rightarrow> 'd world \<Rightarrow> (error + 'd hval option) \<times> 'd world" where
  "hgetBuffer k f w =
     (let w1 = log_event (HGetBuffer k f) w
      in if \<not> redis_up w then (Inl RedisError, w1)
         else
           (case store w k of
              None \<Rightarrow> (Inr None, w1)
            | Some (RHash fs) \<Rightarrow> (Inr (map_of fs f), w1)
            | Some (RSet ms) \<Rightarrow> (Inl RedisError, w1)))"

fun members :: "'d redis_val option \<Rightarrow> string list" where
  "members (Some (RSet ms)) = ms"
| "members v = []"

fun is_hash :: "'d redis_val option \<Rightarrow> bool" where
  "is_hash (Some (RHash fs)) = True"
| "is_hash v = False"

text \<open>
  \<open>redis.sunion(...keys)\<close>: the members of the sets under the keys, each once; a missing
  key is an empty set. Without a key, or with a key that holds a record, the store
  answers with an error.
\<close>

definition sunion :: "string list \<Rightarrow> 'd world \<Rightarrow> (error + string list) \<times> 'd world" where
  "sunion ks w =
     (let w1 = log_event (SUnion ks) w
      in if \<not> redis_up w \<or> ks = [] \<or> list_ex (\<lambda>k. is_hash (store w k)) ks
         then (Inl RedisError, w1)
         else (Inr (remdups (concat (map (\<lambda>k. members (store w k)) ks))), w1))"

section \<open>CachedQueryExecutor (CachedQuery/index.ts)\<close>

record 'd QueryExecOpts =
  skip :: "count option"
  limit :: "count option"
  filter_fn :: "('d \<Rightarrow> bool) option"
  skipCache :: "bool option"

definition no_opts :: "'d QueryExecOpts" where
  "no_opts = \<lparr>skip = None, limit = None, filter_fn = None, skipCache = None\<rparr>"

record 'd ParsedOptions =
  po_query :: jsval
  po_key :: string
  po_exec :: "'d QueryExecOpts"

text \<open>\<open>opts.fresh({limit})\<close>\<close>

definition fresh_limit :: "'d ParsedOptions \<Rightarrow> count \<Rightarrow> 'd ParsedOptions" where
  "fresh_limit opts l = opts\<lparr>po_exec := no_opts\<lparr>limit := Some l\<rparr>\<rparr>"

text \<open>
  What a caller passes: parsed options, the parameter array, an options object with or
  without \<open>params\<close>, or nothing.
\<close>

datatype 'd InputExecOpts =
    InParsed "'d ParsedOptions"
  | InParams "jsval list"
  | InOpts "'d QueryExecOpts" "jsval list option"
  | InVoid

text \<open>
  What the executor uses from outside src: the source of truth (\<open>find(...).lean().exec()\<close>
  of mongoose), \<open>String(doc._id)\<close>, and \<open>collectPopulatedIds\<close> and \<open>skipAndLimit\<close> of
  \<open>./utils\<close>.
\<close>

record 'd externals =
  mongoose_find :: "FindRequest \<Rightarrow> 'd list"
  docIdString :: "'d \<Rightarrow> string"
  collectPopulatedIds :: "'d list \<Rightarrow> jsval list \<Rightarrow> string list"
  skipAndLimit :: "'d list \<Rightarrow> count \<Rightarrow> count option \<Rightarrow> 'd list"

definition parseOpts :: "CachedQuery \<Rightarrow> 'd InputExecOpts \<Rightarrow> error + 'd ParsedOptions" where
  "parseOpts cq input =
     (case input of
        InParsed p \<Rightarrow> Inr p
      | _ \<Rightarrow>
        let exec_opts = (case input of InOpts e ps \<Rightarrow> e | _ \<Rightarrow> no_opts)
        in (case query (config cq) of
              QueryFn n f \<Rightarrow>
                (case input of
                   InVoid \<Rightarrow> Inl (TypeError ''Cannot read properties of undefined'')
                 | InOpts e None \<Rightarrow> Inl (TypeError ''undefined is not iterable'')
                 | InOpts e (Some params) \<Rightarrow>
                     (case getCacheKey cq params of
                        Inl err \<Rightarrow> Inl err
                      | Inr k \<Rightarrow> Inr \<lparr>po_query = f params, po_key = k, po_exec = exec_opts\<rparr>)
                 | InParams params \<Rightarrow>
                     (case getCacheKey cq params of
                        Inl err \<Rightarrow> Inl err
                      | Inr k \<Rightarrow> Inr \<lparr>po_query = f params, po_key = k, po_exec = exec_opts\<rparr>)
                 | InParsed p \<Rightarrow> Inr p)
            | StaticQuery q \<Rightarrow>
                (case getCacheKey cq [] of
                   Inl err \<Rightarrow> Inl err
                 | Inr k \<Rightarrow> Inr \<lparr>po_query = q, po_key = k, po_exec = exec_opts\<rparr>)))"

fun count_truthy :: "count \<Rightarrow> bool" where
  "count_truthy (Finite n) = (n \<noteq> 0)"
| "count_truthy Infinity = True"

fun count_add :: "count \<Rightarrow> count \<Rightarrow> count" where
  "count_add (Finite a) (Finite b) = Finite (a + b)"
| "count_add a b = Infinity"

text \<open>\<open>a > b\<close>\<close>

fun count_gt :: "count \<Rightarrow> count \<Rightarrow> bool" where
  "count_gt (Finite a) (Finite b) = (b < a)"
| "count_gt Infinity (Finite b) = True"
| "count_gt a Infinity = False"

definition buildQuery :: "CachedQuery \<Rightarrow> 'd ParsedOptions \<Rightarrow> FindRequest" where
  "buildQuery cq opts =
     (let c = config cq; e = po_exec opts
      in \<lparr>find_model = model c,
          find_filter = po_query opts,
          find_sort =
            (if unique c then None
             else (case sort_by c of None \<Rightarrow> None | Some s \<Rightarrow> if truthy s then Some s else None)),
          find_skip =
            (if unique c then None
             else (case skip e of None \<Rightarrow> None | Some s \<Rightarrow> if count_truthy s then Some s else None)),
          find_limit =
            (if unique c then Some (Finite 1)
             else (case limit e of
                     None \<Rightarrow> None
                   | Some l \<Rightarrow> if count_truthy l \<and> l \<noteq> Infinity then Some l else None)),
          find_select = (case select c of None \<Rightarrow> None | Some s \<Rightarrow> if truthy s then Some s else None),
          find_populate = populate c\<rparr>)"

definition execMongo ::
  "'d externals \<Rightarrow> CachedQuery \<Rightarrow> 'd InputExecOpts \<Rightarrow> 'd world \<Rightarrow> (error + 'd list) \<times> 'd world"
  where
  "execMongo ext cq input w =
     (case parseOpts cq input of
        Inl e \<Rightarrow> (Inl e, w)
      | Inr opts \<Rightarrow>
          (Inr (mongoose_find ext (buildQuery cq opts)), log_event (MongoFind (buildQuery cq opts)) w))"

fun join :: "string \<Rightarrow> string list \<Rightarrow> string" where
  "join sep [] = []"
| "join sep [x] = x"
| "join sep (x # y # ys) = x @ sep @ join sep (y # ys)"

definition cache_cmds ::
  "'d externals \<Rightarrow> CachedQuery \<Rightarrow> 'd list \<Rightarrow> string \<Rightarrow> 'd cmd list" where
  "cache_cmds ext cq result cacheKey =
     (let docIds = map (docIdString ext) result;
          populatedIds = collectPopulatedIds ext result (populate (config cq));
          allKey = ''A:'' @ hash cq;
          e = expiry (config cq)
      in [Del cacheKey,
          HSet cacheKey ''V'' (HBson result),
          HSet cacheKey ''O'' (HStr (join '' '' docIds)),
          HSet cacheKey ''P'' (HStr (join '' '' populatedIds)),
          SAdd allKey cacheKey,
          ExpireGT cacheKey e,
          ExpireGT allKey e]
         @ concat (map (\<lambda>id. [SAdd (''O:'' @ id) cacheKey, ExpireGT (''O:'' @ id) e]) docIds)
         @ concat (map (\<lambda>id. [SAdd (''P:'' @ id) cacheKey, ExpireGT (''P:'' @ id) e]) populatedIds))"

text \<open>The commands that only touch the dependency index and the expiry.\<close>

definition index_cmd :: "'d cmd \<Rightarrow> bool" where
  "index_cmd c = (case c of SAdd k m \<Rightarrow> True | ExpireGT k e \<Rightarrow> True | _ \<Rightarrow> False)"

text \<open>\<open>serializeAndCache\<close>: an exception of the transaction is caught and dropped.\<close>

definition serializeAndCache ::
  "'d externals \<Rightarrow> CachedQuery \<Rightarrow> 'd list \<Rightarrow> string \<Rightarrow> 'd world \<Rightarrow> 'd world" where
  "serializeAndCache ext cq result cacheKey w = snd (multi_exec (cache_cmds ext cq result cacheKey) w)"

text \<open>
  The test of \<open>exec\<close> for a query outside the cacheable window:
  \<open>(cacheCount < Infinity && limit === undefined) || (limit && (limit + skip) > cacheCount)\<close>.
\<close>

definition outsideCacheable :: "count \<Rightarrow> count \<Rightarrow> count option \<Rightarrow> bool" where
  "outsideCacheable cc sk lim =
     ((count_gt Infinity cc \<and> lim = None)
      \<or> (case lim of None \<Rightarrow> False | Some l \<Rightarrow> count_truthy l \<and> count_gt (count_add l sk) cc))"

text \<open>
  The cache read of \<open>exec\<close>: the documents under field \<open>V\<close>, or nothing when the field is
  missing, cannot be deserialized, or the read throws (the exception is caught).
\<close>

definition readCache :: "string \<Rightarrow> 'd world \<Rightarrow> 'd list option \<times> 'd world" where
  "readCache cacheKey w =
     (case hgetBuffer cacheKey ''V'' w of
        (Inr (Some (HBson docs)), w1) \<Rightarrow> (Some docs, w1)
      | (r, w1) \<Rightarrow> (None, w1))"

text \<open>The defaults of \<open>const { skip = 0, limit, skipCache = false, filter } = opts.exec\<close>.\<close>

definition opt_skip :: "'d ParsedOptions \<Rightarrow> count" where
  "opt_skip opts = (case skip (po_exec opts) of None \<Rightarrow> Finite 0 | Some s \<Rightarrow> s)"

definition opt_skipCache :: "'d ParsedOptions \<Rightarrow> bool" where
  "opt_skipCache opts = (case skipCache (po_exec opts) of None \<Rightarrow> False | Some b \<Rightarrow> b)"

text \<open>\<open>if (filter) result = result.filter(filter)\<close>\<close>

definition apply_filter :: "('d \<Rightarrow> bool) option \<Rightarrow> 'd list \<Rightarrow> 'd list" where
  "apply_filter flt result = (case flt of None \<Rightarrow> result | Some f \<Rightarrow> filter f result)"

text \<open>
  The miss path of \<open>exec\<close>: fetch up to \<open>cacheCount\<close> documents, and cache them unless
  the definition is unique and nothing was found.
\<close>

definition fetchAndCache ::
  "'d externals \<Rightarrow> CachedQuery \<Rightarrow> 'd ParsedOptions \<Rightarrow> 'd world \<Rightarrow> (error + 'd list) \<times> 'd world"
  where
  "fetchAndCache ext cq opts w1 =
     (case execMongo ext cq (InParsed (fresh_limit opts (cacheCount (config cq)))) w1 of
        (Inl e, w2) \<Rightarrow> (Inl e, w2)
      | (Inr result, w2) \<Rightarrow>
          (Inr result,
           if length result > 0 \<or> \<not> unique (config cq)
           then serializeAndCache ext cq result (po_key opts) w2 else w2))"

definition exec ::
  "'d externals \<Rightarrow> CachedQuery \<Rightarrow> 'd InputExecOpts \<Rightarrow> 'd world \<Rightarrow> (error + 'd list) \<times> 'd world"
  where
  "exec ext cq input w =
     (case parseOpts cq input of
        Inl e \<Rightarrow> (Inl e, w)
      | Inr opts \<Rightarrow>
          if outsideCacheable (cacheCount (config cq)) (opt_skip opts) (limit (po_exec opts))
          then execMongo ext cq (InParsed opts) w
          else
            (case (if \<not> opt_skipCache opts then readCache (po_key opts) w else (None, w)) of
               (cached, w1) \<Rightarrow>
                 (case (case cached of
                          Some docs \<Rightarrow> (Inr docs, w1)
                        | None \<Rightarrow> fetchAndCache ext cq opts w1) of
                    (Inl e, w3) \<Rightarrow> (Inl e, w3)
                  | (Inr result, w3) \<Rightarrow>
                      (Inr (skipAndLimit ext (apply_filter (filter_fn (po_exec opts)) result)
                              (opt_skip opts) (limit (po_exec opts))),
                       w3))))"

text \<open>
  The candidate result of a call that is not answered by the source of truth directly:
  the cached array when the cache is read and has one, else the fetch of up to
  \<open>cacheCount\<close> documents.
\<close>

definition candidate ::
  "'d externals \<Rightarrow> CachedQuery \<Rightarrow> 'd ParsedOptions \<Rightarrow> 'd world \<Rightarrow> 'd list" where
  "candidate ext cq opts w =
     (case (if \<not> opt_skipCache opts then fst (readCache (po_key opts) w) else None) of
        Some docs \<Rightarrow> docs
      | None \<Rightarrow> mongoose_find ext (buildQuery cq (fresh_limit opts (cacheCount (config cq)))))"

section \<open>InvalidationHandler (CachedQuery/invalidation/handler.ts)\<close>

text \<open>
  The handler's state is its set \<open>keysInvalidated\<close>. A remove event carries the ids of
  the removed documents, each as the string \<open>String(id)\<close>.
\<close>

definition record_result :: "string \<times> reply \<Rightarrow> string set \<Rightarrow> string set" where
  "record_result kr keysInvalidated =
     (case kr of
        (key, ReplyErr) \<Rightarrow> keysInvalidated
      | (key, ReplyInt didExist) \<Rightarrow>
          if key \<noteq> [] \<and> didExist \<noteq> 0 then insert key keysInvalidated else keysInvalidated)"

definition invalidate ::
  "string list \<Rightarrow> string set \<times> 'd world \<Rightarrow> (error + unit) \<times> string set \<times> 'd world" where
  "invalidate keys hw =
     (case hw of (keysInvalidated, w) \<Rightarrow>
        if length keys = 0 then (Inr (), keysInvalidated, w)
        else
          (case multi_exec (map DelQuery keys) w of
             (Inl e, w1) \<Rightarrow> (Inl e, keysInvalidated, w1)
           | (Inr results, w1) \<Rightarrow>
               if length results = 0 then (Inr (), keysInvalidated, w1)
               else (Inr (), fold record_result (zip keys results) keysInvalidated, w1)))"

definition doRemoveInvalidation ::
  "string list \<Rightarrow> string set \<times> 'd world \<Rightarrow> (error + unit) \<times> string set \<times> 'd world" where
  "doRemoveInvalidation ids hw =
     (case hw of (keysInvalidated, w) \<Rightarrow>
        (case sunion (map (\<lambda>id. ''O:'' @ id) ids @ map (\<lambda>id. ''P:'' @ id) ids) w of
           (Inl e, w1) \<Rightarrow> (Inl e, keysInvalidated, w1)
         | (Inr dependentKeys, w1) \<Rightarrow>
             if length dependentKeys = 0 then (Inr (), keysInvalidated, w1)
             else invalidate dependentKeys (keysInvalidated, w1)))"

text \<open>
  The keys that depend on the removed documents: the union, over the removed ids, of
  the set under \<open>O:id\<close> and the set under \<open>P:id\<close>.
\<close>

definition removedKeys :: "string list \<Rightarrow> 'd world \<Rightarrow> string set" where
  "removedKeys ids w =
     (\<Union>id \<in> set ids. set (members (store w (''O:'' @ id))) \<union> set (members (store w (''P:'' @ id))))"

section \<open>An example environment\<close>

text \<open>
  For concrete runs: an empty store that can be reached, and a source of truth that
  answers every request with the given documents, cut to the requested window.
\<close>

definition emptyWorld :: "'d world" where
  "emptyWorld = \<lparr>store = (\<lambda>k. None), ttl = (\<lambda>k. None), redis_up = True, trace = []\<rparr>"

fun drop_count :: "count \<Rightarrow> 'a list \<Rightarrow> 'a list" where
  "drop_count (Finite n) xs = drop (nat n) xs"
| "drop_count Infinity xs = []"

fun take_count :: "count \<Rightarrow> 'a list \<Rightarrow> 'a list" where
  "take_count (Finite n) xs = take (nat n) xs"
| "take_count Infinity xs = xs"

definition window :: "'a list \<Rightarrow> count \<Rightarrow> count option \<Rightarrow> 'a list" where
  "window xs sk lim =
     (case lim of None \<Rightarrow> drop_count sk xs | Some l \<Rightarrow> take_count l (drop_count sk xs))"

definition sampleExternals :: "jsval list \<Rightarrow> jsval externals" where
  "sampleExternals docs =
     \<lparr>mongoose_find =
        (\<lambda>req. window docs (case find_skip req of None \<Rightarrow> Finite 0 | Some s \<Rightarrow> s) (find_limit req)),
      docIdString = (\<lambda>d. case field_of d ''_id'' of JObjectId h \<Rightarrow> h | _ \<Rightarrow> []),
      collectPopulatedIds = (\<lambda>result pop. []),
      skipAndLimit = window\<rparr>"

definition sampleDoc :: jsval where
  "sampleDoc = JObj [(''_id'', JObjectId ''507f1f77bcf86cd799439011''), (''orgId'', JStr ''A'')]"

text \<open>
  Seventy users of organisation \<open>A\<close>, in the order in which the source of truth returns
  them.
\<close>

definition seventyUsers :: "jsval list" where
  "seventyUsers =
     map (\<lambda>i. JObj [(''_id'', JObjectId (pad 24 i)), (''orgId'', JStr ''A'')]) [0..<70]"

text \<open>A unique definition: the user with a given e-mail address.\<close>

definition userByEmail :: CachedQuery where
  "userByEmail =
     \<lparr>config =
        \<lparr>model = ''User'',
         query = QueryFn 1 (\<lambda>ps. JObj [(''email'', case ps of [] \<Rightarrow> JUndefined | p # _ \<Rightarrow> p)]),
         unique = True, invalidateOnInsert = False, rehydrate = False,
         cacheCount = Infinity, expiry = 3600, select = None, sort_by = None, populate = []\<rparr>,
      hash = ''h3'',
      classification =
        \<lparr>matcher = (\<lambda>doc. True), dynamicKeys = [''email''], complexQuery = False\<rparr>\<rparr>"

text \<open>
  A store for the removal scenario: document \<open>x\<close> is a primary member of the entry
  \<open>K1\<close>, document \<open>y\<close> is a populated reference of the entry \<open>K2\<close>, and \<open>K3\<close> depends
  on neither.
\<close>

definition removalWorld :: "jsval world" where
  "removalWorld =
     \<lparr>store =
        (\<lambda>k. if k = ''O:x'' then Some (RSet [''K1''])
             else if k = ''P:y'' then Some (RSet [''K2''])
             else if k = ''K1'' \<or> k = ''K2'' \<or> k = ''K3'' then Some (RHash [(''V'', HBson [])])
             else None),
      ttl = (\<lambda>k. None), redis_up = True, trace = []\<rparr>"

text \<open>
  The key resolution of the copy of \<open>doRemoveInvalidation\<close> in the unnamed source file
  (part_000, lines 246 to 255): it reads the \<open>O:\<close> sets only.
\<close>

definition dependentKeys_primaryOnly ::
  "string list \<Rightarrow> 'd world \<Rightarrow> (error + string list) \<times> 'd world" where
  "dependentKeys_primaryOnly ids w = sunion (map (\<lambda>id. ''O:'' @ id) ids) w"

section \<open>CacheKeyCodec: parseCacheKey\<close>

subsection \<open>JSON.parse\<close>

text \<open>
  \<open>JSON.parse\<close> on the texts of the model: white space between tokens, the literals,
  strings with their escapes, integers, arrays and objects. A number with a fraction
  or an exponent, an escape \<open>\u\<close> above 255 and a property name that is an array index
  (JavaScript enumerates those first) are outside the model; a text that is not JSON
  is a \<open>SyntaxError\<close>. The recursion counts its calls down from a number that no text
  of the given length exhausts.
\<close>

definition is_ws :: "char \<Rightarrow> bool" where
  "is_ws c = (c = CHR '' '' \<or> c = CHR 0x09 \<or> c = CHR 0x0A \<or> c = CHR 0x0D)"

definition skip_ws :: "string \<Rightarrow> string" where
  "skip_ws s = dropWhile is_ws s"

definition is_digit :: "char \<Rightarrow> bool" where
  "is_digit c = (48 \<le> (of_char c :: nat) \<and> (of_char c :: nat) \<le> 57)"

definition digit_val :: "char \<Rightarrow> nat" where
  "digit_val c = of_char c - 48"

definition hex_val :: "char \<Rightarrow> nat option" where
  "hex_val c =
     (let n = (of_char c :: nat)
      in if 48 \<le> n \<and> n \<le> 57 then Some (n - 48)
         else if 97 \<le> n \<and> n \<le> 102 then Some (n - 87)
         else if 65 \<le> n \<and> n \<le> 70 then Some (n - 55)
         else None)"

text \<open>The character a one-letter escape stands for.\<close>

definition unescape :: "char \<Rightarrow> char option" where
  "unescape e =
     (if e = CHR 0x22 then Some (CHR 0x22)
      else if e = CHR 0x5C then Some (CHR 0x5C)
      else if e = CHR ''/'' then Some (CHR ''/'')
      else if e = CHR ''b'' then Some (CHR 0x08)
      else if e = CHR ''f'' then Some (CHR 0x0C)
      else if e = CHR ''n'' then Some (CHR 0x0A)
      else if e = CHR ''r'' then Some (CHR 0x0D)
      else if e = CHR ''t'' then Some (CHR 0x09)
      else None)"

definition consE :: "char \<Rightarrow> error + (string \<times> string) \<Rightarrow> error + (string \<times> string)" where
  "consE x r = (case r of Inl e \<Rightarrow> Inl e | Inr (s, rest) \<Rightarrow> Inr (x # s, rest))"

text \<open>The characters of a string after its opening quote, up to the closing quote.\<close>

fun parse_chars :: "string \<Rightarrow> error + (string \<times> string)" where
  "parse_chars [] = Inl (SyntaxError ''Unterminated string in JSON'')"
| "parse_chars (c # cs) =
     (if c = CHR 0x22 then Inr ([], cs)
      else if c = CHR 0x5C then
        (case cs of
           [] \<Rightarrow> Inl (SyntaxError ''Unterminated string in JSON'')
         | e # r \<Rightarrow>
             if e = CHR ''u'' then
               (case r of
                  h1 # h2 # h3 # h4 # r' \<Rightarrow>
                    (case (hex_val h1, hex_val h2, hex_val h3, hex_val h4) of
                       (Some x1, Some x2, Some x3, Some x4) \<Rightarrow>
                         if ((x1 * 16 + x2) * 16 + x3) * 16 + x4 < 256
                         then consE (char_of (((x1 * 16 + x2) * 16 + x3) * 16 + x4)) (parse_chars r')
                         else Inl (Unmodelled ''code unit above 255'')
                     | _ \<Rightarrow> Inl (SyntaxError ''Bad Unicode escape in JSON''))
                | _ \<Rightarrow> Inl (SyntaxError ''Bad Unicode escape in JSON''))
             else
               (case unescape e of
                  None \<Rightarrow> Inl (SyntaxError ''Bad escaped character in JSON'')
                | Some x \<Rightarrow> consE x (parse_chars r)))
      else if (of_char c :: nat) < 32
      then Inl (SyntaxError ''Bad control character in string literal in JSON'')
      else consE c (parse_chars cs))"

fun parse_digits :: "string \<Rightarrow> nat \<Rightarrow> nat \<times> string" where
  "parse_digits [] acc = (acc, [])"
| "parse_digits (c # cs) acc =
     (if is_digit c then parse_digits cs (10 * acc + digit_val c) else (acc, c # cs))"

definition starts_fraction :: "string \<Rightarrow> bool" where
  "starts_fraction s = (case s of [] \<Rightarrow> False | c # cs \<Rightarrow> c = CHR ''.'' \<or> c = CHR ''e'' \<or> c = CHR ''E'')"

text \<open>An integer: an optional minus sign, then \<open>0\<close> or digits that do not start with \<open>0\<close>.\<close>

definition parse_number :: "string \<Rightarrow> error + (jsval \<times> string)" where
  "parse_number s =
     (let neg = (take 1 s = ''-''); s1 = (if neg then drop 1 s else s)
      in case s1 of
           [] \<Rightarrow> Inl (SyntaxError ''No number after minus sign in JSON'')
         | d # ds \<Rightarrow>
             if \<not> is_digit d then Inl (SyntaxError ''Unexpected token in JSON'')
             else if d = CHR ''0'' \<and> (case ds of [] \<Rightarrow> False | d2 # r \<Rightarrow> is_digit d2)
             then Inl (SyntaxError ''Unexpected number in JSON'')
             else
               (case parse_digits (d # ds) 0 of
                  (n, rest) \<Rightarrow>
                    if starts_fraction rest then Inl (Unmodelled ''fraction or exponent'')
                    else Inr (JNum (if neg then - int n else int n), rest)))"

text \<open>A property name that is an array index: the decimal numeral of a number below \<open>2^32 - 1\<close>.\<close>

definition is_array_index :: "string \<Rightarrow> bool" where
  "is_array_index k =
     (k \<noteq> [] \<and> list_all is_digit k \<and> (k = ''0'' \<or> take 1 k \<noteq> ''0'')
      \<and> fst (parse_digits k 0) < 4294967295)"

fun parse_value :: "nat \<Rightarrow> string \<Rightarrow> error + (jsval \<times> string)"
  and parse_elems :: "nat \<Rightarrow> string \<Rightarrow> jsval list \<Rightarrow> error + (jsval \<times> string)"
  and parse_members :: "nat \<Rightarrow> string \<Rightarrow> (string \<times> jsval) list \<Rightarrow> error + (jsval \<times> string)"
where
  "parse_value 0 s = Inl (Unmodelled ''out of fuel'')"
| "parse_value (Suc n) s =
     (case skip_ws s of
        [] \<Rightarrow> Inl (SyntaxError ''Unexpected end of JSON input'')
      | c # r \<Rightarrow>
          if c = CHR 0x22 then
            (case parse_chars r of Inl e \<Rightarrow> Inl e | Inr (str, r') \<Rightarrow> Inr (JStr str, r'))
          else if c = CHR ''['' then
            (if take 1 (skip_ws r) = '']'' then Inr (JArr [], drop 1 (skip_ws r))
             else parse_elems n r [])
          else if c = CHR ''{'' then
            (if take 1 (skip_ws r) = ''}'' then Inr (JObj [], drop 1 (skip_ws r))
             else parse_members n r [])
          else if take 4 (c # r) = ''null'' then Inr (JNull, drop 3 r)
          else if take 4 (c # r) = ''true'' then Inr (JBool True, drop 3 r)
          else if take 5 (c # r) = ''false'' then Inr (JBool False, drop 4 r)
          else parse_number (c # r))"
| "parse_elems 0 s acc = Inl (Unmodelled ''out of fuel'')"
| "parse_elems (Suc n) s acc =
     (case parse_value n s of
        Inl e \<Rightarrow> Inl e
      | Inr (v, r) \<Rightarrow>
          (case skip_ws r of
             [] \<Rightarrow> Inl (SyntaxError ''Unexpected end of JSON input'')
           | c # r' \<Rightarrow>
               if c = CHR '','' then parse_elems n r' (acc @ [v])
               else if c = CHR '']'' then Inr (JArr (acc @ [v]), r')
               else Inl (SyntaxError ''Unexpected token in JSON'')))"
| "parse_members 0 s acc = Inl (Unmodelled ''out of fuel'')"
| "parse_members (Suc n) s acc =
     (case skip_ws s of
        [] \<Rightarrow> Inl (SyntaxError ''Unexpected end of JSON input'')
      | q # r \<Rightarrow>
          if q \<noteq> CHR 0x22 then Inl (SyntaxError ''Expected property name in JSON'')
          else
            (case parse_chars r of
               Inl e \<Rightarrow> Inl e
             | Inr (k, r1) \<Rightarrow>
                 if take 1 (skip_ws r1) \<noteq> '':'' then Inl (SyntaxError ''Expected colon in JSON'')
                 else if is_array_index k then Inl (Unmodelled ''property name that is an array index'')
                 else
                   (case parse_value n (drop 1 (skip_ws r1)) of
                      Inl e \<Rightarrow> Inl e
                    | Inr (v, r3) \<Rightarrow>
                        (case skip_ws r3 of
                           [] \<Rightarrow> Inl (SyntaxError ''Unexpected end of JSON input'')
                         | c # r4 \<Rightarrow>
                             if c = CHR '','' then parse_members n r4 (AList.update k v acc)
                             else if c = CHR ''}'' then Inr (JObj (AList.update k v acc), r4)
                             else Inl (SyntaxError ''Unexpected token in JSON'')))))"

definition JSON_parse :: "string \<Rightarrow> error + jsval" where
  "JSON_parse s =
     (case parse_value (2 * length s + 1) s of
        Inl e \<Rightarrow> Inl e
      | Inr (v, r) \<Rightarrow>
          if skip_ws r = [] then Inr v
          else Inl (SyntaxError ''Unexpected non-whitespace character after JSON''))"

subsection \<open>The regular expression of cache keys\<close>

text \<open>
  \<open>MATCH_CACHE_KEY = /^Q:(.+?)(\[.*\])$/\<close>. A dot matches every character but a line
  terminator. The second group matches a rest that starts with \<open>[\<close>, ends the key with
  \<open>]\<close> and has no line terminator in between; the first group is lazy, so the shortest
  non-empty hash whose rest matches is taken.
\<close>

definition is_line_terminator :: "char \<Rightarrow> bool" where
  "is_line_terminator c = (c = CHR 0x0A \<or> c = CHR 0x0D)"

definition matches_params :: "string \<Rightarrow> bool" where
  "matches_params rest =
     (case rest of
        [] \<Rightarrow> False
      | c # t \<Rightarrow>
          c = CHR ''['' \<and> t \<noteq> [] \<and> last t = CHR '']''
          \<and> \<not> list_ex is_line_terminator (butlast t))"

fun lazy_hash :: "string \<Rightarrow> string \<Rightarrow> (string \<times> string) option" where
  "lazy_hash h [] = None"
| "lazy_hash h (c # cs) =
     (if matches_params (c # cs) then Some (h, c # cs)
      else if is_line_terminator c then None
      else lazy_hash (h @ [c]) cs)"

definition match_cache_key :: "string \<Rightarrow> (string \<times> string) option" where
  "match_cache_key key =
     (if take 2 key = ''Q:'' then
        (case drop 2 key of
           [] \<Rightarrow> None
         | c # cs \<Rightarrow> if is_line_terminator c then None else lazy_hash [c] cs)
      else None)"

definition parseCacheKey :: "string \<Rightarrow> error + (string \<times> jsval)" where
  "parseCacheKey key =
     (case match_cache_key key of
        None \<Rightarrow> Inl (Error ''Failed to parse cache key'')
      | Some (h, params) \<Rightarrow>
          if h = [] \<or> params = [] then Inl (Error ''Failed to parse cache key'')
          else (case JSON_parse params of Inl e \<Rightarrow> Inl e | Inr v \<Rightarrow> Inr (h, v)))"

subsection \<open>Plain parameters\<close>

text \<open>
  The values that JSON represents as they are: \<open>null\<close>, booleans, integers, strings,
  arrays of such values, and objects of such values whose property names are distinct
  and none an array index.
\<close>

fun plain :: "jsval \<Rightarrow> bool" where
  "plain JNull = True"
| "plain (JBool b) = True"
| "plain (JNum n) = True"
| "plain (JStr s) = True"
| "plain (JArr xs) = (\<forall>x \<in> set xs. plain x)"
| "plain (JObj fs) =
     (distinct (map fst fs) \<and> (\<forall>kv \<in> set fs. \<not> is_array_index (fst kv) \<and> plain (snd kv)))"
| "plain v = False"

text \<open>
  A hash that the regular expression can find again: not empty, no \<open>[\<close> after its first
  character, no line terminator.
\<close>

definition plain_hash :: "string \<Rightarrow> bool" where
  "plain_hash h = (h \<noteq> [] \<and> CHR ''['' \<notin> set (tl h) \<and> \<not> list_ex is_line_terminator h)"

subsection \<open>Texts that parse back\<close>

text \<open>A rest that does not go on with a digit.\<close>

definition not_digit_start :: "string \<Rightarrow> bool" where
  "not_digit_start r = (case r of [] \<Rightarrow> True | c # cs \<Rightarrow> \<not> is_digit c)"

text \<open>What may follow a value in a text: the end, a comma or a closing bracket.\<close>

definition ok_rest :: "string \<Rightarrow> bool" where
  "ok_rest r = (case r of [] \<Rightarrow> True | c # cs \<Rightarrow> c = CHR '','' \<or> c = CHR '']'' \<or> c = CHR ''}'')"

text \<open>The text of a value in an array or as a property value.\<close>

definition jtext :: "jsval \<Rightarrow> string" where
  "jtext v = json_element (json_stringify v)"

text \<open>
  A text that starts a value: not empty, no white space or closing bracket first, and
  no line terminator anywhere.
\<close>

definition good :: "string \<Rightarrow> bool" where
  "good t = (t \<noteq> [] \<and> \<not> is_ws (hd t) \<and> hd t \<noteq> CHR '']'' \<and> \<not> list_ex is_line_terminator t)"

text \<open>A value whose text parses back to it, whatever follows.\<close>

definition parses_back :: "jsval \<Rightarrow> bool" where
  "parses_back v = (json_stringify v = Some (jtext v) \<and> serializeValue v = v \<and> good (jtext v)
     \<and> (\<forall>n r. ok_rest r \<longrightarrow> 2 * length (jtext v @ r) + 1 \<le> n
            \<longrightarrow> parse_value n (jtext v @ r) = Inr (v, r)))"

text \<open>The text of a property: the quoted name, a colon, the text of the value.\<close>

definition mtext :: "string \<times> jsval \<Rightarrow> string" where
  "mtext kv = json_quote (fst kv) @ CHR '':'' # jtext (snd kv)"

section \<open>Verification\<close>

subsection \<open>The update operators\<close>

lemma split_on_not_Nil: "split_on c s \<noteq> []"
  by (induction s) (auto split: list.splits)

lemma field_of_update: "field_of (JObj (AList.update k x fs)) k = x"
  by (simp add: field_of_def update_conv')

lemma get_set_path: "ks \<noteq> [] \<Longrightarrow> get_path (set_path v ks x) ks = x"
proof (induction ks arbitrary: v)
  case Nil
  then show ?case by simp
next
  case (Cons k ks)
  show ?case
  proof (cases ks)
    case Nil
    then show ?thesis by (simp add: field_of_update)
  next
    case (Cons k' ks')
    with Cons.IH show ?thesis by (simp add: field_of_update)
  qed
qed

lemma getValue_setValue: "getValue (setValue target path x) path = x"
  by (simp add: getValue_def setValue_def get_set_path split_on_not_Nil)

lemma bit_length_le: "m < 2 ^ k \<Longrightarrow> bit_length m \<le> k"
proof (induction k arbitrary: m)
  case 0
  then show ?case by (simp add: bit_length.simps)
next
  case (Suc k)
  show ?case
  proof (cases "m \<le> 0")
    case True
    then show ?thesis by (simp add: bit_length.simps)
  next
    case False
    from Suc.prems have "m div 2 < 2 ^ k" by simp
    from Suc.IH [OF this] False show ?thesis by (subst bit_length.simps) simp
  qed
qed

text \<open>Integers of magnitude up to \<open>2 ^ 53\<close> are not rounded.\<close>

lemma round_double_exact: "\<bar>n\<bar> \<le> 2 ^ 53 \<Longrightarrow> round_double n = n"
proof (cases "\<bar>n\<bar> = 2 ^ 53")
  case True
  have "bit_length (2 ^ 53) = 54" by code_simp
  then have "bit_length \<bar>n\<bar> - 53 = 1" by (simp add: True)
  then have "round_double n = sgn n * \<bar>n\<bar>"
    unfolding round_double_def Let_def by (simp add: True)
  then show ?thesis by (simp add: mult_sgn_abs)
next
  case False
  assume "\<bar>n\<bar> \<le> 2 ^ 53"
  with False have "\<bar>n\<bar> < 2 ^ 53" by simp
  from bit_length_le [OF this] have "bit_length \<bar>n\<bar> - 53 = 0" by simp
  then have "round_double n = sgn n * \<bar>n\<bar>"
    unfolding round_double_def Let_def by simp
  then show ?thesis by (simp add: mult_sgn_abs)
qed

lemma number_result_exact: "\<bar>x\<bar> \<le> 2 ^ 53 \<Longrightarrow> number_result x = Inr (JNum x)"
proof -
  assume a: "\<bar>x\<bar> \<le> 2 ^ 53"
  have "(2 :: int) ^ 53 < 2 ^ 1024" by simp
  with a have "\<bar>x\<bar> < 2 ^ 1024" by linarith
  with a show ?thesis by (simp add: number_result_def round_double_exact)
qed

text \<open>Above \<open>2 ^ 53\<close> a sum is rounded: \<open>2 ^ 53 + 1\<close> is \<open>2 ^ 53\<close>.\<close>

lemma js_add_rounds:
  "js_add (JNum 9007199254740992) (JNum 1) = Inr (JNum 9007199254740992)
   \<and> js_add (JNum 9007199254740992) (JNum 3) = Inr (JNum 9007199254740996)
   \<and> js_add (JNum 5) (JNum (- 7)) = Inr (JNum (- 2))"
  by code_simp

lemma inc_num_cases:
  "inc_num val = Inr num \<Longrightarrow>
     (\<exists>n. val = JNum n \<and> num = JNum n) \<or> (\<exists>b. val = JBool b \<and> num = JNum (if b then 1 else 0))
     \<or> (\<exists>ms. val = JDate ms \<and> num = JNum ms)"
  by (cases val rule: inc_num.cases) auto

text \<open>
  The cases of \<open>$inc\<close> as the code has them. It throws unless its operand is a number
  other than \<open>NaN\<close>, a boolean or a date. With such an operand: it throws when the path
  holds a value that is not of type number; when the path is missing the operand itself
  becomes the value at the path; and an existing number is increased by the operand as
  a number (\<open>true\<close> is 1, \<open>false\<close> is 0, a date is its millisecond value), exactly so
  while the sum has magnitude at most \<open>2 ^ 53\<close>.
\<close>

lemma inc_cases:
  "((\<forall>n. val \<noteq> JNum n) \<and> (\<forall>b. val \<noteq> JBool b) \<and> (\<forall>ms. val \<noteq> JDate ms)
      \<longrightarrow> handlers_inc target path val = Inl (Error ''$inc amount must be a numeric type''))
   \<and> (inc_num val = Inr num \<and> getValue target path \<noteq> JUndefined
        \<and> \<not> typeof_number (getValue target path)
      \<longrightarrow> handlers_inc target path val = Inl (Error ''$inc target field must be a numeric type''))
   \<and> (inc_num val = Inr num \<and> getValue target path = JUndefined
      \<longrightarrow> handlers_inc target path val = Inr (setValue target path val)
          \<and> getValue (setValue target path val) path = val)
   \<and> (inc_num val = Inr (JNum k) \<and> getValue target path = JNum a \<and> \<bar>a + k\<bar> \<le> 2 ^ 53
      \<longrightarrow> handlers_inc target path val = Inr (setValue target path (JNum (a + k)))
          \<and> getValue (setValue target path (JNum (a + k))) path = JNum (a + k))
   \<and> inc_num (JNum n) = Inr (JNum n)
   \<and> inc_num (JBool True) = Inr (JNum 1)
   \<and> inc_num (JBool False) = Inr (JNum 0)
   \<and> inc_num (JDate ms) = Inr (JNum ms)"
proof -
  have bad: "handlers_inc target path val = Inl (Error ''$inc amount must be a numeric type'')"
    if "\<forall>n. val \<noteq> JNum n" "\<forall>b. val \<noteq> JBool b" "\<forall>ms. val \<noteq> JDate ms"
    proof (cases val)
    case (JBool b)
    with that(2) show ?thesis by blast
  qed (use that in \<open>simp_all add: handlers_inc_def\<close>)
  have nonnum: "handlers_inc target path val = Inl (Error ''$inc target field must be a numeric type'')"
    if "inc_num val = Inr num" "getValue target path \<noteq> JUndefined"
       "\<not> typeof_number (getValue target path)"
    using that by (simp add: handlers_inc_def updateValue_def)
  have missing: "handlers_inc target path val = Inr (setValue target path val)"
    if "inc_num val = Inr num" "getValue target path = JUndefined"
    using that by (simp add: handlers_inc_def updateValue_def)
  have present: "handlers_inc target path val = Inr (setValue target path (JNum (a + k)))"
    if "inc_num val = Inr (JNum k)" "getValue target path = JNum a" "\<bar>a + k\<bar> \<le> 2 ^ 53"
    using that by (simp add: handlers_inc_def updateValue_def number_result_exact)
  show ?thesis
    using bad nonnum missing present by (simp add: getValue_setValue)
qed

text \<open>
  The scenario of \<open>$inc\<close> on numbers: \<open>{a: 1}\<close> with \<open>{$inc: {a: 5}}\<close> becomes \<open>{a: 6}\<close>,
  with \<open>{$inc: {missing: 5}}\<close> it gets \<open>missing\<close> set to 5, and \<open>{$inc: {a: "str"}}\<close>
  throws; beyond \<open>2 ^ 53\<close> the sum is rounded as the addition of doubles rounds it.
\<close>

lemma inc_scenario:
  "applyUpdates [JObj [(''a'', JNum 1)]] (inc_update ''a'' (JNum 5))
        = Inr ([JObj [(''a'', JNum 6)]], JNull)
   \<and> applyUpdates [JObj [(''a'', JNum 1)]] (inc_update ''missing'' (JNum 5))
        = Inr ([JObj [(''a'', JNum 1), (''missing'', JNum 5)]], JNull)
   \<and> applyUpdates [JObj []] (inc_update ''missing'' (JNum 5))
        = Inr ([JObj [(''missing'', JNum 5)]], JNull)
   \<and> applyUpdates [JObj [(''a'', JNum 1)]] (inc_update ''a'' (JStr ''str''))
        = Inl (Error ''$inc amount must be a numeric type'')
   \<and> applyUpdates [JObj [(''a'', JNum 9007199254740992)]] (inc_update ''a'' (JNum 1))
        = Inr ([JObj [(''a'', JNum 9007199254740992)]], JNull)"
  by code_simp

text \<open>
  C8 fails in the code on a missing path. \<open>$inc\<close> computes the operand as a number
  (\<open>true\<close> is 1, \<open>false\<close> is 0, a date is its millisecond value) and adds that number to
  an existing one, but on a missing path it stores the operand as it was given, not the
  number: \<open>{}\<close> with \<open>{$inc: {n: true}}\<close> becomes \<open>{n: true}\<close> where the coerced
  increment would give \<open>{n: 1}\<close>, and a date is stored as a date. The value left at the
  path is not of type number, so the next \<open>$inc\<close> of that path throws. On an existing
  number the same operands are coerced: \<open>{n: 1}\<close> with \<open>{$inc: {n: true}}\<close> becomes
  \<open>{n: 2}\<close>.
\<close>

theorem inc_missing_path_stores_raw_operand:
  "applyUpdates [JObj []] (inc_update ''n'' (JBool True))
        = Inr ([JObj [(''n'', JBool True)]], JNull)
   \<and> applyUpdates [JObj [(''n'', JBool True)]] (inc_update ''n'' (JNum 1))
        = Inl (Error ''$inc target field must be a numeric type'')
   \<and> applyUpdates [JObj []] (inc_update ''at'' (JDate 40))
        = Inr ([JObj [(''at'', JDate 40)]], JNull)
   \<and> applyUpdates [JObj [(''n'', JNum 1)]] (inc_update ''n'' (JBool True))
        = Inr ([JObj [(''n'', JNum 2)]], JNull)
   \<and> applyUpdates [JObj [(''n'', JNum 1)]] (inc_update ''n'' (JDate 40))
        = Inr ([JObj [(''n'', JNum 41)]], JNull)
   \<and> inc_num (JBool True) = Inr (JNum 1)
   \<and> inc_num (JDate 40) = Inr (JNum 40)"
  by code_simp

text \<open>
  \<open>$addToSet\<close> under the comparison the code uses: a missing path becomes a one-element
  array, an array gets the operand appended unless \<open>includes\<close> finds it, anything else
  throws.
\<close>

lemma addToSet_cases:
  "(getValue target path = JUndefined
      \<longrightarrow> handlers_addToSet target path val = Inr (setValue target path (JArr [val])))
   \<and> (getValue target path = JArr found \<and> array_includes found val
      \<longrightarrow> handlers_addToSet target path val = Inr target)
   \<and> (getValue target path = JArr found \<and> \<not> array_includes found val
      \<longrightarrow> handlers_addToSet target path val = Inr (setValue target path (JArr (found @ [val]))))
   \<and> (getValue target path \<noteq> JUndefined \<and> \<not> isArray (getValue target path)
      \<longrightarrow> handlers_addToSet target path val
            = Inl (Error ''$addToSet target field must be an array''))"
  by (cases "getValue target path") (simp_all add: handlers_addToSet_def)

lemma array_includes_primitive:
  "is_primitive val \<Longrightarrow> array_includes found val = (val \<in> set found)"
  by (auto simp: array_includes_def sameValueZero_def list_ex_iff)

lemma array_includes_object:
  "\<not> is_primitive val \<Longrightarrow> \<not> array_includes found val"
  by (auto simp: array_includes_def sameValueZero_def list_ex_iff)

text \<open>
  C9. \<open>$addToSet\<close> appends an operand that is an object, an array, a date or an ObjectId
  even when the array already holds an equal element: \<open>{tags: [{a: 1}]}\<close> with
  \<open>{$addToSet: {tags: {a: 1}}}\<close> becomes \<open>{tags: [{a: 1}, {a: 1}]}\<close>, and an array of
  ObjectIds gets a second copy of an id it already holds.
\<close>

theorem addToSet_appends_equal_object:
  "applyUpdates [JObj [(''tags'', JArr [JObj [(''a'', JNum 1)]])]]
       (addToSet_update ''tags'' (JObj [(''a'', JNum 1)]))
     = Inr ([JObj [(''tags'', JArr [JObj [(''a'', JNum 1)], JObj [(''a'', JNum 1)]])]], JNull)
   \<and> applyUpdates [JObj [(''members'', JArr [JObjectId ''507f1f77bcf86cd799439011''])]]
       (addToSet_update ''members'' (JObjectId ''507f1f77bcf86cd799439011''))
     = Inr ([JObj [(''members'', JArr [JObjectId ''507f1f77bcf86cd799439011'',
                                      JObjectId ''507f1f77bcf86cd799439011''])]], JNull)
   \<and> applyUpdates [JObj [(''tags'', JArr [JStr ''x''])]] (addToSet_update ''tags'' (JStr ''x''))
     = Inr ([JObj [(''tags'', JArr [JStr ''x''])]], JNull)"
  by code_simp




subsection \<open>Insert invalidation\<close>

text \<open>
  C1. \<open>getInsertInvalidation\<close> returns nothing when the definition is unique, or does
  not invalidate on insert, or is of another model; nothing when the matcher rejects
  the document; the full-definition invalidation of the definition's hash when the
  classification is complex; and otherwise the single key that \<open>getCacheKey\<close> builds
  from the values of the \<open>dynamicKeys\<close> fields of the document (\<open>Q:\<close>, the hash, and
  the encoded tuple). \<open>getCacheKey\<close> checks the length of the tuple against the declared
  number of parameters and throws when they differ. A definition that is not complex
  never gets a full-definition invalidation.
\<close>

theorem getInsertInvalidation_cases:
  "(unique (config cq) \<or> \<not> invalidateOnInsert (config cq) \<or> model (config cq) \<noteq> modelName
      \<longrightarrow> getInsertInvalidation cq modelName doc = Inr None)
   \<and> (\<not> matcher (classification cq) doc
      \<longrightarrow> getInsertInvalidation cq modelName doc = Inr None)
   \<and> (\<not> unique (config cq) \<and> invalidateOnInsert (config cq) \<and> model (config cq) = modelName
        \<and> matcher (classification cq) doc \<and> complexQuery (classification cq)
      \<longrightarrow> getInsertInvalidation cq modelName doc = Inr (Some (InvalidateAll (hash cq))))
   \<and> (\<not> unique (config cq) \<and> invalidateOnInsert (config cq) \<and> model (config cq) = modelName
        \<and> matcher (classification cq) doc \<and> \<not> complexQuery (classification cq)
        \<and> expectNumParams cq = length (dynamicKeys (classification cq))
      \<longrightarrow> getInsertInvalidation cq modelName doc
            = Inr (Some (InvalidateKey (hash cq)
                (''Q:'' @ hash cq
                 @ EJSON_stringify (JArr (map (field_of doc) (dynamicKeys (classification cq))))))))
   \<and> (\<not> unique (config cq) \<and> invalidateOnInsert (config cq) \<and> model (config cq) = modelName
        \<and> matcher (classification cq) doc \<and> \<not> complexQuery (classification cq)
        \<and> expectNumParams cq \<noteq> length (dynamicKeys (classification cq))
      \<longrightarrow> (\<exists>e. getInsertInvalidation cq modelName doc = Inl e))
   \<and> (\<not> complexQuery (classification cq)
      \<longrightarrow> (\<forall>h. getInsertInvalidation cq modelName doc \<noteq> Inr (Some (InvalidateAll h))))"
  by (simp add: getInsertInvalidation_def getCacheKey_def Let_def)

theorem getInsertInvalidation_cases_witness:
  "getInsertInvalidation usersByOrg ''User'' (JObj [(''orgId'', JStr ''A''), (''name'', JStr ''x'')])
     = Inr (Some (InvalidateKey ''h1'' (''Q:h1['' @ [CHR 0x22] @ ''A'' @ [CHR 0x22] @ '']'')))
   \<and> getInsertInvalidation usersByOrg ''Team'' (JObj [(''orgId'', JStr ''A'')]) = Inr None
   \<and> getInsertInvalidation adultUsers ''User'' (JObj [(''age'', JNum 30)])
     = Inr (Some (InvalidateAll ''h2''))
   \<and> getInsertInvalidation adultUsers ''User'' (JObj [(''age'', JNum 12)]) = Inr None"
proof -
  have k: "EJSON_stringify (JArr [JStr ''A'']) = [CHR ''['', CHR 0x22, CHR ''A'', CHR 0x22, CHR '']'']"
    by code_simp
  show ?thesis
    using
      getInsertInvalidation_cases
        [of usersByOrg "''User''" "JObj [(''orgId'', JStr ''A''), (''name'', JStr ''x'')]"]
      getInsertInvalidation_cases [of usersByOrg "''Team''" "JObj [(''orgId'', JStr ''A'')]"]
      getInsertInvalidation_cases [of adultUsers "''User''" "JObj [(''age'', JNum 30)]"]
      getInsertInvalidation_cases [of adultUsers "''User''" "JObj [(''age'', JNum 12)]"]
    by (simp add: usersByOrg_def adultUsers_def expectNumParams_def field_of_def k)
qed

subsection \<open>The executor\<close>


subsection \<open>The store\<close>

lemma log_event_simps [simp]:
  "store (log_event ev w) = store w"
  "ttl (log_event ev w) = ttl w"
  "redis_up (log_event ev w) = redis_up w"
  "trace (log_event ev w) = trace w @ [ev]"
  by (simp_all add: log_event_def)

lemma run_cmd_frame:
  "trace (snd (run_cmd c w)) = trace w \<and> redis_up (snd (run_cmd c w)) = redis_up w"
  by (cases c)
     (auto simp: del_key_def hset_def sadd_def expiregt_def delquery_def
           split: option.splits redis_val.splits)

lemma run_cmds_frame:
  "trace (snd (run_cmds cs w)) = trace w \<and> redis_up (snd (run_cmds cs w)) = redis_up w"
proof (induction cs arbitrary: w)
  case Nil
  then show ?case by simp
next
  case (Cons c cs)
  obtain r w' where c: "run_cmd c w = (r, w')" by (cases "run_cmd c w")
  obtain rs w'' where cs: "run_cmds cs w' = (rs, w'')" by (cases "run_cmds cs w'")
  from run_cmd_frame [of c w] c have "trace w' = trace w \<and> redis_up w' = redis_up w" by simp
  moreover from Cons.IH [of w'] cs have "trace w'' = trace w' \<and> redis_up w'' = redis_up w'" by simp
  ultimately show ?case using c cs by simp
qed

lemma multi_exec_trace [simp]:
  "trace (snd (multi_exec cmds w)) = trace w @ [MultiExec (map cmd_key cmds)]"
  using run_cmds_frame [of cmds "log_event (MultiExec (map cmd_key cmds)) w"]
  by (auto simp: multi_exec_def Let_def split: prod.splits)

lemma multi_exec_up [simp]: "redis_up (snd (multi_exec cmds w)) = redis_up w"
  using run_cmds_frame [of cmds "log_event (MultiExec (map cmd_key cmds)) w"]
  by (auto simp: multi_exec_def Let_def split: prod.splits)

lemma multi_exec_run:
  "redis_up w \<Longrightarrow>
   multi_exec cmds w =
     (Inr (fst (run_cmds cmds (log_event (MultiExec (map cmd_key cmds)) w))),
      snd (run_cmds cmds (log_event (MultiExec (map cmd_key cmds)) w)))"
  by (simp add: multi_exec_def Let_def split: prod.splits)

lemma multi_exec_down:
  "\<not> redis_up w \<Longrightarrow> multi_exec cmds w = (Inl RedisError, log_event (MultiExec (map cmd_key cmds)) w)"
  by (simp add: multi_exec_def Let_def)

lemma readCache_world [simp]: "snd (readCache k w) = log_event (HGetBuffer k ''V'') w"
  by (simp add: readCache_def hgetBuffer_def Let_def
           split: option.splits redis_val.splits hval.splits)

lemma readCache_result:
  "fst (readCache k w) =
     (if redis_up w then
        (case store w k of
           Some (RHash fs) \<Rightarrow> (case map_of fs ''V'' of Some (HBson docs) \<Rightarrow> Some docs | _ \<Rightarrow> None)
         | _ \<Rightarrow> None)
      else None)"
  by (simp add: readCache_def hgetBuffer_def Let_def
           split: option.splits redis_val.splits hval.splits)

lemma readCache_cong:
  "store w' k = store w k \<Longrightarrow> redis_up w' = redis_up w \<Longrightarrow> fst (readCache k w') = fst (readCache k w)"
  by (simp add: readCache_result)

subsection \<open>The paths of exec\<close>

lemma execMongo_parsed [simp]:
  "execMongo ext cq (InParsed opts) w =
     (Inr (mongoose_find ext (buildQuery cq opts)), log_event (MongoFind (buildQuery cq opts)) w)"
  by (simp add: execMongo_def parseOpts_def)

lemma exec_fails:
  "parseOpts cq input = Inl e \<Longrightarrow> exec ext cq input w = (Inl e, w)"
  by (simp add: exec_def)

lemma exec_bypass:
  "parseOpts cq input = Inr opts \<Longrightarrow>
   outsideCacheable (cacheCount (config cq)) (opt_skip opts) (limit (po_exec opts)) \<Longrightarrow>
   exec ext cq input w =
     (Inr (mongoose_find ext (buildQuery cq opts)), log_event (MongoFind (buildQuery cq opts)) w)"
  by (simp add: exec_def)

text \<open>The world in which the miss path starts: after the cache read, if there was one.\<close>

lemma exec_hit:
  "parseOpts cq input = Inr opts \<Longrightarrow>
   \<not> outsideCacheable (cacheCount (config cq)) (opt_skip opts) (limit (po_exec opts)) \<Longrightarrow>
   \<not> opt_skipCache opts \<Longrightarrow> fst (readCache (po_key opts) w) = Some docs \<Longrightarrow>
   exec ext cq input w =
     (Inr (skipAndLimit ext (apply_filter (filter_fn (po_exec opts)) docs)
             (opt_skip opts) (limit (po_exec opts))),
      log_event (HGetBuffer (po_key opts) ''V'') w)"
proof -
  assume a: "parseOpts cq input = Inr opts"
    "\<not> outsideCacheable (cacheCount (config cq)) (opt_skip opts) (limit (po_exec opts))"
    "\<not> opt_skipCache opts" "fst (readCache (po_key opts) w) = Some docs"
  have "readCache (po_key opts) w = (Some docs, log_event (HGetBuffer (po_key opts) ''V'') w)"
    using a(4) readCache_world [of "po_key opts" w] by (cases "readCache (po_key opts) w") simp
  with a(1-3) show ?thesis by (simp add: exec_def)
qed

lemma fetchAndCache_eq:
  "fetchAndCache ext cq opts w1 =
     (Inr (mongoose_find ext (buildQuery cq (fresh_limit opts (cacheCount (config cq))))),
      if mongoose_find ext (buildQuery cq (fresh_limit opts (cacheCount (config cq)))) \<noteq> []
         \<or> \<not> unique (config cq)
      then serializeAndCache ext cq
             (mongoose_find ext (buildQuery cq (fresh_limit opts (cacheCount (config cq)))))
             (po_key opts)
             (log_event (MongoFind (buildQuery cq (fresh_limit opts (cacheCount (config cq))))) w1)
      else log_event (MongoFind (buildQuery cq (fresh_limit opts (cacheCount (config cq))))) w1)"
  by (simp add: fetchAndCache_def)

lemma exec_miss:
  "parseOpts cq input = Inr opts \<Longrightarrow>
   \<not> outsideCacheable (cacheCount (config cq)) (opt_skip opts) (limit (po_exec opts)) \<Longrightarrow>
   \<not> opt_skipCache opts \<Longrightarrow> fst (readCache (po_key opts) w) = None \<Longrightarrow>
   exec ext cq input w =
     (Inr (skipAndLimit ext
             (apply_filter (filter_fn (po_exec opts))
                (mongoose_find ext (buildQuery cq (fresh_limit opts (cacheCount (config cq))))))
             (opt_skip opts) (limit (po_exec opts))),
      snd (fetchAndCache ext cq opts (log_event (HGetBuffer (po_key opts) ''V'') w)))"
proof -
  assume a: "parseOpts cq input = Inr opts"
    "\<not> outsideCacheable (cacheCount (config cq)) (opt_skip opts) (limit (po_exec opts))"
    "\<not> opt_skipCache opts" "fst (readCache (po_key opts) w) = None"
  have "readCache (po_key opts) w = (None, log_event (HGetBuffer (po_key opts) ''V'') w)"
    using a(4) readCache_world [of "po_key opts" w] by (cases "readCache (po_key opts) w") simp
  with a(1-3) show ?thesis by (simp add: exec_def fetchAndCache_eq)
qed

lemma exec_skipCache:
  "parseOpts cq input = Inr opts \<Longrightarrow>
   \<not> outsideCacheable (cacheCount (config cq)) (opt_skip opts) (limit (po_exec opts)) \<Longrightarrow>
   opt_skipCache opts \<Longrightarrow>
   exec ext cq input w =
     (Inr (skipAndLimit ext
             (apply_filter (filter_fn (po_exec opts))
                (mongoose_find ext (buildQuery cq (fresh_limit opts (cacheCount (config cq))))))
             (opt_skip opts) (limit (po_exec opts))),
      snd (fetchAndCache ext cq opts w))"
  by (simp add: exec_def fetchAndCache_eq)

lemma fetchAndCache_trace:
  "\<exists>rest. trace (snd (fetchAndCache ext cq opts w1)) = trace w1 @ rest"
  by (simp add: fetchAndCache_eq serializeAndCache_def)

lemma outsideCacheable_iff:
  "outsideCacheable cc sk lim \<longleftrightarrow>
     (cc \<noteq> Infinity \<and> lim = None)
     \<or> (\<exists>l. lim = Some l \<and> l \<noteq> Finite 0 \<and> count_gt (count_add l sk) cc)"
proof -
  have a: "count_gt Infinity cc \<longleftrightarrow> cc \<noteq> Infinity" by (cases cc) simp_all
  have b: "count_truthy l \<longleftrightarrow> l \<noteq> Finite 0" for l by (cases l) simp_all
  show ?thesis by (cases lim) (simp_all add: outsideCacheable_def a b)
qed

text \<open>
  The test of \<open>exec\<close> as it is written. For a call whose options parse, \<open>exec\<close> answers
  from the source of truth directly exactly when \<open>cacheCount\<close> is finite and no limit
  was requested, or a limit other than 0 was requested and \<open>limit + skip\<close> exceeds
  \<open>cacheCount\<close>. It then makes one request to the source of truth and nothing else: no
  cache read, and the store and its expiries are left as they were. Every other call
  that does not skip the cache starts with a read of field \<open>V\<close> under the derived key.
\<close>

lemma exec_paths:
  "parseOpts cq input = Inr opts \<Longrightarrow>
   (outsideCacheable (cacheCount (config cq)) (opt_skip opts) (limit (po_exec opts))
      \<longleftrightarrow> (cacheCount (config cq) \<noteq> Infinity \<and> limit (po_exec opts) = None)
          \<or> (\<exists>l. limit (po_exec opts) = Some l \<and> l \<noteq> Finite 0
                  \<and> count_gt (count_add l (opt_skip opts)) (cacheCount (config cq))))
   \<and> (outsideCacheable (cacheCount (config cq)) (opt_skip opts) (limit (po_exec opts))
      \<longrightarrow> exec ext cq input w
            = (Inr (mongoose_find ext (buildQuery cq opts)),
               w\<lparr>trace := trace w @ [MongoFind (buildQuery cq opts)]\<rparr>))
   \<and> (\<not> outsideCacheable (cacheCount (config cq)) (opt_skip opts) (limit (po_exec opts))
        \<and> \<not> opt_skipCache opts
      \<longrightarrow> (\<exists>rest. trace (snd (exec ext cq input w))
                    = trace w @ HGetBuffer (po_key opts) ''V'' # rest))"
proof (intro conjI impI)
  show "outsideCacheable (cacheCount (config cq)) (opt_skip opts) (limit (po_exec opts))
      \<longleftrightarrow> (cacheCount (config cq) \<noteq> Infinity \<and> limit (po_exec opts) = None)
          \<or> (\<exists>l. limit (po_exec opts) = Some l \<and> l \<noteq> Finite 0
                  \<and> count_gt (count_add l (opt_skip opts)) (cacheCount (config cq)))"
    by (rule outsideCacheable_iff)
next
  assume p: "parseOpts cq input = Inr opts"
    and o: "outsideCacheable (cacheCount (config cq)) (opt_skip opts) (limit (po_exec opts))"
  from exec_bypass [OF p o]
  show "exec ext cq input w
            = (Inr (mongoose_find ext (buildQuery cq opts)),
               w\<lparr>trace := trace w @ [MongoFind (buildQuery cq opts)]\<rparr>)"
    by (simp add: log_event_def)
next
  assume p: "parseOpts cq input = Inr opts"
    and n: "\<not> outsideCacheable (cacheCount (config cq)) (opt_skip opts) (limit (po_exec opts))
        \<and> \<not> opt_skipCache opts"
  show "\<exists>rest. trace (snd (exec ext cq input w)) = trace w @ HGetBuffer (po_key opts) ''V'' # rest"
  proof (cases "fst (readCache (po_key opts) w)")
    case None
    from fetchAndCache_trace [of ext cq opts "log_event (HGetBuffer (po_key opts) ''V'') w"]
    obtain rest where
      "trace (snd (fetchAndCache ext cq opts (log_event (HGetBuffer (po_key opts) ''V'') w)))
         = trace (log_event (HGetBuffer (po_key opts) ''V'') w) @ rest" by blast
    with exec_miss [OF p _ _ None, of ext] n show ?thesis by simp
  next
    case (Some docs)
    with exec_hit [OF p _ _ Some, of ext] n show ?thesis by simp
  qed
qed


lemma Infinity_never_outside: "\<not> outsideCacheable Infinity sk lim"
proof -
  have "\<not> count_gt c Infinity" for c by (cases c) simp_all
  then show ?thesis by (simp add: outsideCacheable_def split: option.splits)
qed

lemma exec_result_cached_path:
  assumes p: "parseOpts cq input = Inr opts"
    and n: "\<not> outsideCacheable (cacheCount (config cq)) (opt_skip opts) (limit (po_exec opts))"
  shows "fst (exec ext cq input w) =
     Inr (skipAndLimit ext (apply_filter (filter_fn (po_exec opts)) (candidate ext cq opts w))
            (opt_skip opts) (limit (po_exec opts)))"
proof (cases "opt_skipCache opts")
  case True
  with exec_skipCache [OF p n, of ext w] show ?thesis by (simp add: candidate_def)
next
  case False
  show ?thesis
  proof (cases "fst (readCache (po_key opts) w)")
    case None
    with exec_miss [OF p n False None, of ext] False show ?thesis by (simp add: candidate_def)
  next
    case (Some docs)
    with exec_hit [OF p n False Some, of ext] False show ?thesis by (simp add: candidate_def)
  qed
qed

text \<open>
  C5, amended. For a call with a client-side filter whose options parse: when the call
  is not answered by the source of truth directly, the result is the candidate result
  (the cached array, or the fetch of up to \<open>cacheCount\<close> documents) with the filter
  applied first and \<open>skipAndLimit\<close> applied to what the filter keeps; when it is
  answered directly, the result is what the source of truth returns for the requested
  window, and the filter is not applied. With \<open>cacheCount = Infinity\<close>, which the code
  expects of filterable queries, a call is never answered directly.
\<close>

theorem exec_filter_then_window:
  "parseOpts cq input = Inr opts \<Longrightarrow> filter_fn (po_exec opts) = Some f \<Longrightarrow>
   (\<not> outsideCacheable (cacheCount (config cq)) (opt_skip opts) (limit (po_exec opts))
      \<longrightarrow> fst (exec ext cq input w)
            = Inr (skipAndLimit ext (filter f (candidate ext cq opts w))
                     (opt_skip opts) (limit (po_exec opts))))
   \<and> (outsideCacheable (cacheCount (config cq)) (opt_skip opts) (limit (po_exec opts))
      \<longrightarrow> fst (exec ext cq input w) = Inr (mongoose_find ext (buildQuery cq opts)))
   \<and> (cacheCount (config cq) = Infinity
      \<longrightarrow> \<not> outsideCacheable (cacheCount (config cq)) (opt_skip opts) (limit (po_exec opts)))"
  using exec_result_cached_path [of cq input opts ext w] exec_bypass [of cq input opts ext w]
  by (auto simp: apply_filter_def Infinity_never_outside)

lemma index_cmds_keep_hash:
  "list_all index_cmd cs \<Longrightarrow> store w k = Some (RHash fs) \<Longrightarrow>
   store (snd (run_cmds cs w)) k = Some (RHash fs)"
proof (induction cs arbitrary: w)
  case Nil
  then show ?case by simp
next
  case (Cons c cs)
  obtain r w' where c: "run_cmd c w = (r, w')" by (cases "run_cmd c w")
  obtain rs w'' where cs: "run_cmds cs w' = (rs, w'')" by (cases "run_cmds cs w'")
  from Cons.prems c have "store w' k = Some (RHash fs)"
    by (cases c)
       (auto simp: index_cmd_def sadd_def expiregt_def split: option.splits redis_val.splits if_splits)
  with Cons.IH [of w'] Cons.prems(1) cs have "store w'' k = Some (RHash fs)" by simp
  with c cs show ?case by simp
qed

lemma run_cmds_append:
  "run_cmds (as @ bs) w =
     (case run_cmds as w of (rs, w') \<Rightarrow> (case run_cmds bs w' of (rs', w'') \<Rightarrow> (rs @ rs', w'')))"
  by (induction as arbitrary: w) (auto split: prod.splits)

lemma serializeAndCache_entry:
  assumes "redis_up w"
  shows "store (serializeAndCache ext cq result cacheKey w) cacheKey =
     Some (RHash [(''V'', HBson result),
                  (''O'', HStr (join '' '' (map (docIdString ext) result))),
                  (''P'', HStr (join '' '' (collectPopulatedIds ext result (populate (config cq)))))])"
proof -
  let ?O = "HStr (join '' '' (map (docIdString ext) result))"
  let ?P = "HStr (join '' '' (collectPopulatedIds ext result (populate (config cq))))"
  let ?head = "[Del cacheKey, HSet cacheKey ''V'' (HBson result), HSet cacheKey ''O'' ?O,
                HSet cacheKey ''P'' ?P]"
  define cmds where "cmds = cache_cmds ext cq result cacheKey"
  define tail where "tail = drop 4 cmds"
  define w0 where "w0 = log_event (MultiExec (map cmd_key cmds)) w"
  have split: "cmds = ?head @ tail"
    by (simp add: tail_def cmds_def cache_cmds_def Let_def)
  have tail: "list_all index_cmd tail"
    by (auto simp: tail_def cmds_def cache_cmds_def Let_def index_cmd_def list_all_iff)
  obtain rs w1 where h: "run_cmds ?head w0 = (rs, w1)" by (cases "run_cmds ?head w0")
  then have e: "store w1 cacheKey = Some (RHash [(''V'', HBson result), (''O'', ?O), (''P'', ?P)])"
    by (auto simp: del_key_def hset_def split: prod.splits)
  have "run_cmds cmds w0 = (case run_cmds tail w1 of (rs', w'') \<Rightarrow> (rs @ rs', w''))"
    by (simp only: split run_cmds_append h prod.case)
  then have "snd (run_cmds cmds w0) = snd (run_cmds tail w1)"
    by (simp split: prod.splits)
  with index_cmds_keep_hash [OF tail e]
  have "store (snd (run_cmds cmds w0)) cacheKey
          = Some (RHash [(''V'', HBson result), (''O'', ?O), (''P'', ?P)])"
    by simp
  with assms show ?thesis
    by (simp add: serializeAndCache_def multi_exec_run cmds_def w0_def)
qed

lemma exec_miss_world:
  assumes p: "parseOpts cq input = Inr opts"
    and n: "\<not> outsideCacheable (cacheCount (config cq)) (opt_skip opts) (limit (po_exec opts))"
    and m: "opt_skipCache opts \<or> fst (readCache (po_key opts) w) = None"
  shows "snd (exec ext cq input w) =
     snd (fetchAndCache ext cq opts
            (if opt_skipCache opts then w else log_event (HGetBuffer (po_key opts) ''V'') w))"
proof (cases "opt_skipCache opts")
  case True
  with exec_skipCache [OF p n, of ext w] show ?thesis by simp
next
  case False
  with m have "fst (readCache (po_key opts) w) = None" by simp
  with exec_miss [OF p n False, of w ext] False show ?thesis by simp
qed

text \<open>
  C6. On the miss path (the cache is skipped or has no entry): when the definition is
  unique and the source of truth returns no document, the store and its expiries are
  unchanged and the same call made again asks the source of truth again; when the
  result is not empty or the definition is not unique, and the store can be reached,
  the entry is written under the key (fields \<open>V\<close>, \<open>O\<close>, \<open>P\<close>) and a read of the key
  returns the result.
\<close>

theorem unique_empty_not_cached:
  "parseOpts cq input = Inr opts \<Longrightarrow>
   \<not> outsideCacheable (cacheCount (config cq)) (opt_skip opts) (limit (po_exec opts)) \<Longrightarrow>
   opt_skipCache opts \<or> fst (readCache (po_key opts) w) = None \<Longrightarrow>
   (unique (config cq)
      \<and> mongoose_find ext (buildQuery cq (fresh_limit opts (cacheCount (config cq)))) = []
      \<longrightarrow> store (snd (exec ext cq input w)) = store w
          \<and> ttl (snd (exec ext cq input w)) = ttl w
          \<and> MongoFind (buildQuery cq (fresh_limit opts (cacheCount (config cq))))
              \<in> set (drop (length (trace (snd (exec ext cq input w))))
                       (trace (snd (exec ext cq input (snd (exec ext cq input w)))))))
   \<and> ((mongoose_find ext (buildQuery cq (fresh_limit opts (cacheCount (config cq)))) \<noteq> []
         \<or> \<not> unique (config cq)) \<and> redis_up w
      \<longrightarrow> store (snd (exec ext cq input w)) (po_key opts)
            = Some (RHash
                [(''V'', HBson (mongoose_find ext
                                  (buildQuery cq (fresh_limit opts (cacheCount (config cq)))))),
                 (''O'', HStr (join '' '' (map (docIdString ext)
                     (mongoose_find ext
                        (buildQuery cq (fresh_limit opts (cacheCount (config cq)))))))),
                 (''P'', HStr (join '' '' (collectPopulatedIds ext
                     (mongoose_find ext (buildQuery cq (fresh_limit opts (cacheCount (config cq)))))
                     (populate (config cq)))))])
          \<and> fst (readCache (po_key opts) (snd (exec ext cq input w)))
            = Some (mongoose_find ext
                      (buildQuery cq (fresh_limit opts (cacheCount (config cq))))))"
proof -
  assume p: "parseOpts cq input = Inr opts"
    and n: "\<not> outsideCacheable (cacheCount (config cq)) (opt_skip opts) (limit (po_exec opts))"
    and m: "opt_skipCache opts \<or> fst (readCache (po_key opts) w) = None"
  let ?req = "buildQuery cq (fresh_limit opts (cacheCount (config cq)))"
  let ?found = "mongoose_find ext ?req"
  let ?w1 = "if opt_skipCache opts then w else log_event (HGetBuffer (po_key opts) ''V'') w"
  let ?w' = "snd (exec ext cq input w)"
  have w': "?w' = snd (fetchAndCache ext cq opts ?w1)"
    by (rule exec_miss_world [OF p n m])
  have empty: "store ?w' = store w \<and> ttl ?w' = ttl w
      \<and> MongoFind ?req \<in> set (drop (length (trace ?w')) (trace (snd (exec ext cq input ?w'))))"
    if u: "unique (config cq)" and f: "?found = []"
  proof -
    from u f have eq: "?w' = log_event (MongoFind ?req) ?w1"
      by (simp add: w' fetchAndCache_eq)
    then have st: "store ?w' = store w" "ttl ?w' = ttl w" "redis_up ?w' = redis_up w" by simp_all
    have m': "opt_skipCache opts \<or> fst (readCache (po_key opts) ?w') = None"
      using m readCache_cong [of ?w' "po_key opts" w] st by auto
    let ?w1' = "if opt_skipCache opts then ?w' else log_event (HGetBuffer (po_key opts) ''V'') ?w'"
    from u f have "snd (exec ext cq input ?w') = log_event (MongoFind ?req) ?w1'"
      by (simp add: exec_miss_world [OF p n m'] fetchAndCache_eq)
    then have "MongoFind ?req
        \<in> set (drop (length (trace ?w')) (trace (snd (exec ext cq input ?w'))))"
      by simp
    with st show ?thesis by simp
  qed
  have cached: "store ?w' (po_key opts)
        = Some (RHash [(''V'', HBson ?found),
                       (''O'', HStr (join '' '' (map (docIdString ext) ?found))),
                       (''P'', HStr (join '' '' (collectPopulatedIds ext ?found (populate (config cq)))))])
      \<and> fst (readCache (po_key opts) ?w') = Some ?found"
    if c: "?found \<noteq> [] \<or> \<not> unique (config cq)" and up: "redis_up w"
  proof -
    let ?w2 = "log_event (MongoFind ?req) ?w1"
    from c have eq: "?w' = serializeAndCache ext cq ?found (po_key opts) ?w2"
      by (simp add: w' fetchAndCache_eq)
    from up have up2: "redis_up ?w2" by simp
    have e: "store ?w' (po_key opts)
        = Some (RHash [(''V'', HBson ?found),
                       (''O'', HStr (join '' '' (map (docIdString ext) ?found))),
                       (''P'', HStr (join '' '' (collectPopulatedIds ext ?found (populate (config cq)))))])"
      unfolding eq by (rule serializeAndCache_entry [OF up2])
    have "redis_up ?w'" unfolding eq using up2 by (simp add: serializeAndCache_def)
    with e show ?thesis by (simp add: readCache_result)
  qed
  from empty cached show ?thesis by blast
qed

subsection \<open>Invalidation\<close>

lemma cmd_key_DelQuery [simp]:
  "map cmd_key (map DelQuery keys) = keys" "map (cmd_key \<circ> DelQuery) keys = keys"
  by (induction keys) simp_all

lemma run_delquery:
  "run_cmds (map DelQuery keys) w = (rs, w') \<Longrightarrow>
     store w' = (\<lambda>k. if k \<in> set keys then None else store w k)
   \<and> ttl w' = (\<lambda>k. if k \<in> set keys then None else ttl w k)
   \<and> length rs = length keys
   \<and> fold record_result (zip keys rs) ki = ki \<union> {k \<in> set keys. k \<noteq> [] \<and> store w k \<noteq> None}"
proof (induction keys arbitrary: w w' rs ki)
  case Nil
  then show ?case by auto
next
  case (Cons k keys)
  let ?w1 = "w\<lparr>store := (store w)(k := None), ttl := (ttl w)(k := None)\<rparr>"
  let ?r = "ReplyInt (if store w k = None then 0 else 1)"
  obtain rs1 w1' where r: "run_cmds (map DelQuery keys) ?w1 = (rs1, w1')"
    by (cases "run_cmds (map DelQuery keys) ?w1")
  with Cons.prems have rs: "rs = ?r # rs1" and w': "w' = w1'"
    by (auto simp: delquery_def del_key_def)
  let ?ki1 = "record_result (k, ?r) ki"
  from Cons.IH [OF r, of ?ki1]
  have ih: "store w1' = (\<lambda>k'. if k' \<in> set keys then None else store ?w1 k')"
    "ttl w1' = (\<lambda>k'. if k' \<in> set keys then None else ttl ?w1 k')"
    "length rs1 = length keys"
    "fold record_result (zip keys rs1) ?ki1
       = ?ki1 \<union> {k' \<in> set keys. k' \<noteq> [] \<and> store ?w1 k' \<noteq> None}"
    by simp_all
  have "store w' = (\<lambda>k'. if k' \<in> set (k # keys) then None else store w k')"
    unfolding w' ih(1) by (rule ext) simp
  moreover have "ttl w' = (\<lambda>k'. if k' \<in> set (k # keys) then None else ttl w k')"
    unfolding w' ih(2) by (rule ext) simp
  moreover have "length rs = length (k # keys)" using rs ih(3) by simp
  moreover have "fold record_result (zip (k # keys) rs) ki
      = ki \<union> {k' \<in> set (k # keys). k' \<noteq> [] \<and> store w k' \<noteq> None}"
  proof -
    have "fold record_result (zip (k # keys) rs) ki = fold record_result (zip keys rs1) ?ki1"
      by (simp add: rs)
    also have "\<dots> = ?ki1 \<union> {k' \<in> set keys. k' \<noteq> [] \<and> store ?w1 k' \<noteq> None}" by (rule ih(4))
    also have "\<dots> = ki \<union> {k' \<in> set (k # keys). k' \<noteq> [] \<and> store w k' \<noteq> None}"
      by (auto simp: record_result_def)
    finally show ?thesis .
  qed
  ultimately show ?case by blast
qed

lemma invalidate_up:
  assumes up: "redis_up w" and ne: "keys \<noteq> []"
  shows "\<exists>w'. invalidate keys (ki, w) =
            (Inr (), ki \<union> {k \<in> set keys. k \<noteq> [] \<and> store w k \<noteq> None}, w')
          \<and> store w' = (\<lambda>k. if k \<in> set keys then None else store w k)
          \<and> ttl w' = (\<lambda>k. if k \<in> set keys then None else ttl w k)
          \<and> redis_up w'
          \<and> trace w' = trace w @ [MultiExec keys]"
proof -
  let ?w0 = "log_event (MultiExec keys) w"
  obtain rs w' where r: "run_cmds (map DelQuery keys) ?w0 = (rs, w')"
    by (cases "run_cmds (map DelQuery keys) ?w0")
  from run_delquery [OF r, of ki]
  have d: "store w' = (\<lambda>k. if k \<in> set keys then None else store w k)"
    "ttl w' = (\<lambda>k. if k \<in> set keys then None else ttl w k)"
    "length rs = length keys"
    "fold record_result (zip keys rs) ki = ki \<union> {k \<in> set keys. k \<noteq> [] \<and> store w k \<noteq> None}"
    by (simp_all cong: if_cong)
  from run_cmds_frame [of "map DelQuery keys" ?w0] r
  have f: "trace w' = trace w @ [MultiExec keys]" "redis_up w' = redis_up w" by simp_all
  from ne d(3) have "rs \<noteq> []" by auto
  with up ne r d(4)
  have "invalidate keys (ki, w) =
          (Inr (), ki \<union> {k \<in> set keys. k \<noteq> [] \<and> store w k \<noteq> None}, w')"
    by (simp add: invalidate_def multi_exec_run)
  with d(1,2) f up show ?thesis by simp
qed

text \<open>
  C7. \<open>invalidate\<close> deletes the keys in one transaction, one \<open>delquery\<close> per key; it
  ends without error whether or not a key existed; it adds to \<open>keysInvalidated\<close> the
  nonempty keys that existed and no other; and afterwards none of the keys is in the
  store, so invalidating the same keys again adds no key and changes nothing in the
  store.
\<close>

theorem invalidate_records_existing:
  "redis_up w \<Longrightarrow> keys \<noteq> [] \<Longrightarrow>
   fst (invalidate keys (ki, w)) = Inr ()
   \<and> fst (snd (invalidate keys (ki, w))) = ki \<union> {k \<in> set keys. k \<noteq> [] \<and> store w k \<noteq> None}
   \<and> store (snd (snd (invalidate keys (ki, w)))) = (\<lambda>k. if k \<in> set keys then None else store w k)
   \<and> trace (snd (snd (invalidate keys (ki, w)))) = trace w @ [MultiExec keys]
   \<and> fst (invalidate keys (snd (invalidate keys (ki, w)))) = Inr ()
   \<and> fst (snd (invalidate keys (snd (invalidate keys (ki, w)))))
       = fst (snd (invalidate keys (ki, w)))
   \<and> fst (snd (invalidate keys ({}, snd (snd (invalidate keys (ki, w)))))) = {}
   \<and> store (snd (snd (invalidate keys (snd (invalidate keys (ki, w))))))
       = store (snd (snd (invalidate keys (ki, w))))"
proof -
  assume up: "redis_up w" and ne: "keys \<noteq> []"
  from invalidate_up [OF up ne, of ki] obtain w' where
    1: "invalidate keys (ki, w) =
          (Inr (), ki \<union> {k \<in> set keys. k \<noteq> [] \<and> store w k \<noteq> None}, w')"
    and s: "store w' = (\<lambda>k. if k \<in> set keys then None else store w k)"
    and u: "redis_up w'" and t: "trace w' = trace w @ [MultiExec keys]"
    by blast
  have gone: "{k \<in> set keys. k \<noteq> [] \<and> store w' k \<noteq> None} = {}" by (auto simp: s)
  from invalidate_up [OF u ne, of "ki \<union> {k \<in> set keys. k \<noteq> [] \<and> store w k \<noteq> None}"]
  obtain w'' where
    2: "invalidate keys (ki \<union> {k \<in> set keys. k \<noteq> [] \<and> store w k \<noteq> None}, w') =
          (Inr (), ki \<union> {k \<in> set keys. k \<noteq> [] \<and> store w k \<noteq> None}, w'')"
    and s2: "store w'' = (\<lambda>k. if k \<in> set keys then None else store w' k)"
    unfolding gone by auto
  from invalidate_up [OF u ne, of "{}"]
  obtain w3 where 3: "invalidate keys ({}, w') = (Inr (), {}, w3)"
    unfolding gone by auto
  have "store w'' = store w'" unfolding s2 s by (rule ext) simp
  with 1 2 3 s t show ?thesis by simp
qed

lemma sunion_ok:
  "redis_up w \<Longrightarrow> ks \<noteq> [] \<Longrightarrow> \<forall>k \<in> set ks. \<not> is_hash (store w k) \<Longrightarrow>
   sunion ks w = (Inr (remdups (concat (map (\<lambda>k. members (store w k)) ks))), log_event (SUnion ks) w)"
  by (simp add: sunion_def Let_def list_ex_iff)

text \<open>
  C3. For a remove event with ids, on a store where the keys \<open>O:id\<close> and \<open>P:id\<close> hold
  sets or nothing: \<open>doRemoveInvalidation\<close> asks for the union of the sets under \<open>O:id\<close>
  and \<open>P:id\<close> over all ids, deletes exactly the keys of that union in one transaction
  (every other key keeps its value), and records those of them that existed.
\<close>

theorem remove_invalidates_union:
  "redis_up w \<Longrightarrow> ids \<noteq> [] \<Longrightarrow>
   \<forall>id \<in> set ids. \<not> is_hash (store w (''O:'' @ id)) \<and> \<not> is_hash (store w (''P:'' @ id)) \<Longrightarrow>
   fst (doRemoveInvalidation ids (ki, w)) = Inr ()
   \<and> store (snd (snd (doRemoveInvalidation ids (ki, w))))
       = (\<lambda>k. if k \<in> removedKeys ids w then None else store w k)
   \<and> fst (snd (doRemoveInvalidation ids (ki, w)))
       = ki \<union> {k \<in> removedKeys ids w. k \<noteq> [] \<and> store w k \<noteq> None}
   \<and> (\<exists>ks. set ks = removedKeys ids w \<and> distinct ks
          \<and> trace (snd (snd (doRemoveInvalidation ids (ki, w))))
              = trace w @ SUnion (map (\<lambda>id. ''O:'' @ id) ids @ map (\<lambda>id. ''P:'' @ id) ids)
                  # (if ks = [] then [] else [MultiExec ks]))"
proof -
  assume up: "redis_up w" and ne: "ids \<noteq> []"
    and sets: "\<forall>id \<in> set ids. \<not> is_hash (store w (''O:'' @ id)) \<and> \<not> is_hash (store w (''P:'' @ id))"
  define ks where "ks = map (\<lambda>id. ''O:'' @ id) ids @ map (\<lambda>id. ''P:'' @ id) ids"
  define dep where "dep = remdups (concat (map (\<lambda>k. members (store w k)) ks))"
  define w1 where "w1 = log_event (SUnion ks) w"
  from ne have kne: "ks \<noteq> []" by (simp add: ks_def)
  from sets have ok: "\<forall>k \<in> set ks. \<not> is_hash (store w k)" by (auto simp: ks_def)
  have su: "sunion ks w = (Inr dep, w1)"
    unfolding dep_def w1_def by (rule sunion_ok [OF up kne ok])
  have U: "set dep = removedKeys ids w" by (auto simp: removedKeys_def dep_def ks_def)
  have dd: "distinct dep" by (simp add: dep_def)
  have w1: "store w1 = store w" "trace w1 = trace w @ [SUnion ks]" "redis_up w1"
    using up by (simp_all add: w1_def)
  have unfold: "doRemoveInvalidation ids (ki, w) =
      (if length dep = 0 then (Inr (), ki, w1) else invalidate dep (ki, w1))"
    using su by (simp add: doRemoveInvalidation_def ks_def)
  show ?thesis
  proof (cases "dep = []")
    case True
    with U have e: "removedKeys ids w = {}" by simp
    from True unfold have r: "doRemoveInvalidation ids (ki, w) = (Inr (), ki, w1)" by simp
    have "set [] = removedKeys ids w \<and> distinct ([] :: string list)
        \<and> trace (snd (snd (doRemoveInvalidation ids (ki, w))))
            = trace w @ SUnion ks # (if ([] :: string list) = [] then [] else [MultiExec []])"
      by (simp add: r w1 e)
    then have "\<exists>l. set l = removedKeys ids w \<and> distinct l
        \<and> trace (snd (snd (doRemoveInvalidation ids (ki, w))))
            = trace w @ SUnion ks # (if l = [] then [] else [MultiExec l])"
      by (rule exI)
    then show ?thesis by (simp add: r w1 e ks_def)
  next
    case False
    from invalidate_up [OF w1(3) False, of ki] obtain w' where
      i: "invalidate dep (ki, w1) =
            (Inr (), ki \<union> {k \<in> set dep. k \<noteq> [] \<and> store w1 k \<noteq> None}, w')"
      and s: "store w' = (\<lambda>k. if k \<in> set dep then None else store w1 k)"
      and t: "trace w' = trace w1 @ [MultiExec dep]"
      by blast
    from False unfold i have r: "doRemoveInvalidation ids (ki, w) =
        (Inr (), ki \<union> {k \<in> set dep. k \<noteq> [] \<and> store w1 k \<noteq> None}, w')"
      by simp
    have "set dep = removedKeys ids w \<and> distinct dep
        \<and> trace (snd (snd (doRemoveInvalidation ids (ki, w))))
            = trace w @ SUnion ks # (if dep = [] then [] else [MultiExec dep])"
      using False by (simp add: r t w1 U dd)
    then have "\<exists>l. set l = removedKeys ids w \<and> distinct l
        \<and> trace (snd (snd (doRemoveInvalidation ids (ki, w))))
            = trace w @ SUnion ks # (if l = [] then [] else [MultiExec l])"
      by (rule exI)
    moreover have "store w' = (\<lambda>k. if k \<in> removedKeys ids w then None else store w k)"
      unfolding s U w1(1) ..
    moreover have "{k \<in> set dep. k \<noteq> [] \<and> store w1 k \<noteq> None}
        = {k \<in> removedKeys ids w. k \<noteq> [] \<and> store w k \<noteq> None}"
      unfolding U w1(1) ..
    ultimately show ?thesis by (simp add: r ks_def)
  qed
qed

subsection \<open>Concrete runs\<close>


lemma keyA: \<open>getCacheKey usersByOrg [JStr ''A''] = Inr ''Q:h1["A"]''\<close>
  by code_simp

lemma keyE: \<open>getCacheKey userByEmail [JStr ''a@b.c''] = Inr ''Q:h3["a@b.c"]''\<close>
  by code_simp

lemma keyStatic: \<open>getCacheKey adultUsers [] = Inr ''Q:h2[]''\<close>
  by code_simp

lemma query_usersByOrg:
  "query (config usersByOrg)
     = QueryFn 1 (\<lambda>ps. JObj [(''orgId'', case ps of [] \<Rightarrow> JUndefined | p # _ \<Rightarrow> p)])"
  by (simp add: usersByOrg_def)

lemma query_userByEmail:
  "query (config userByEmail)
     = QueryFn 1 (\<lambda>ps. JObj [(''email'', case ps of [] \<Rightarrow> JUndefined | p # _ \<Rightarrow> p)])"
  by (simp add: userByEmail_def)

lemma query_adultUsers:
  "query (config adultUsers) = StaticQuery (JObj [(''age'', JObj [(''$gt'', JNum 18)])])"
  by (simp add: adultUsers_def)

lemma parse_params:
  \<open>parseOpts usersByOrg (InParams [JStr ''A'']) =
     Inr \<lparr>po_query = JObj [(''orgId'', JStr ''A'')], po_key = ''Q:h1["A"]'', po_exec = no_opts\<rparr>\<close>
  by (simp add: parseOpts_def keyA query_usersByOrg)

lemma parse_opts:
  \<open>parseOpts usersByOrg (InOpts e (Some [JStr ''A''])) =
     Inr \<lparr>po_query = JObj [(''orgId'', JStr ''A'')], po_key = ''Q:h1["A"]'', po_exec = e\<rparr>\<close>
  by (simp add: parseOpts_def keyA query_usersByOrg)

lemma parse_email:
  \<open>parseOpts userByEmail (InParams [JStr ''a@b.c'']) =
     Inr \<lparr>po_query = JObj [(''email'', JStr ''a@b.c'')], po_key = ''Q:h3["a@b.c"]'',
          po_exec = no_opts\<rparr>\<close>
  by (simp add: parseOpts_def keyE query_userByEmail)

lemma parse_static:
  \<open>parseOpts adultUsers (InOpts e None) =
     Inr \<lparr>po_query = JObj [(''age'', JObj [(''$gt'', JNum 18)])], po_key = ''Q:h2[]'', po_exec = e\<rparr>\<close>
  by (simp add: parseOpts_def keyStatic query_adultUsers)

text \<open>
  Calls of \<open>exec\<close> on both sides of its test: without a limit the definition with
  \<open>cacheCount = 50\<close> is answered by the source of truth alone, and with \<open>limit = 10\<close> the
  call starts with the cache read.
\<close>

lemma exec_paths_examples:
  \<open>exec (sampleExternals [sampleDoc]) usersByOrg (InParams [JStr ''A'']) emptyWorld
     = (Inr [sampleDoc],
        emptyWorld\<lparr>trace :=
          [MongoFind \<lparr>find_model = ''User'', find_filter = JObj [(''orgId'', JStr ''A'')],
                      find_sort = None, find_skip = None, find_limit = None,
                      find_select = None, find_populate = []\<rparr>]\<rparr>)
   \<and> (\<exists>rest. trace (snd (exec (sampleExternals [sampleDoc]) usersByOrg
                           (InOpts \<lparr>skip = None, limit = Some (Finite 10), filter_fn = None,
                                    skipCache = None\<rparr> (Some [JStr ''A''])) emptyWorld))
               = HGetBuffer ''Q:h1["A"]'' ''V'' # rest)\<close>
proof -
  have a: "outsideCacheable (Finite 50) (Finite 0) None" by (simp add: outsideCacheable_def)
  have b: "\<not> outsideCacheable (Finite 50) (Finite 0) (Some (Finite 10))"
    by (simp add: outsideCacheable_def)
  have c: "cacheCount (config usersByOrg) = Finite 50" by (simp add: usersByOrg_def)
  show ?thesis
    using exec_paths [OF parse_params, of "sampleExternals [sampleDoc]" emptyWorld]
      exec_paths
        [OF parse_opts, of "\<lparr>skip = None, limit = Some (Finite 10), filter_fn = None,
                             skipCache = None\<rparr>" "sampleExternals [sampleDoc]" emptyWorld]
      a b
    by (simp add: c opt_skip_def opt_skipCache_def no_opts_def)
       (simp add: sampleExternals_def window_def buildQuery_def usersByOrg_def emptyWorld_def)
qed

lemma length_seventyUsers: "length seventyUsers = 70"
  by (simp add: seventyUsers_def)

text \<open>
  C4 fails in the code for a requested limit of 0. The test of \<open>exec\<close> guards the
  comparison of the window with \<open>limit &&\<close>, and 0 is falsy: with \<open>cacheCount = 50\<close>,
  \<open>skip = 60\<close> and \<open>limit = 0\<close> the window \<open>skip + limit\<close> exceeds \<open>cacheCount\<close>, yet
  the test is false and \<open>exec\<close> does not go to the source of truth directly. On an empty
  store it reads the cache, fetches the first 50 documents and writes the entry. With
  seventy matching documents in the source of truth its candidate result is the first
  50 of them, from which a window that starts at 60 takes nothing: \<open>exec\<close> returns no
  document, where the direct fetch of the same call (\<open>buildQuery\<close> takes a limit of 0
  as no limit) returns the ten documents after the first 60.
\<close>

theorem exec_limit_zero_not_bypassed:
  \<open>count_gt (count_add (Finite 0) (Finite 60)) (cacheCount (config usersByOrg))
   \<and> \<not> outsideCacheable (cacheCount (config usersByOrg)) (Finite 60) (Some (Finite 0))
   \<and> trace (snd (exec (sampleExternals []) usersByOrg
                   (InOpts \<lparr>skip = Some (Finite 60), limit = Some (Finite 0), filter_fn = None,
                            skipCache = None\<rparr> (Some [JStr ''A''])) emptyWorld))
       = [HGetBuffer ''Q:h1["A"]'' ''V'',
          MongoFind \<lparr>find_model = ''User'', find_filter = JObj [(''orgId'', JStr ''A'')],
                     find_sort = None, find_skip = None, find_limit = Some (Finite 50),
                     find_select = None, find_populate = []\<rparr>,
          MultiExec [''Q:h1["A"]'', ''Q:h1["A"]'', ''Q:h1["A"]'', ''Q:h1["A"]'', ''A:h1'',
                     ''Q:h1["A"]'', ''A:h1'']]
   \<and> store (snd (exec (sampleExternals []) usersByOrg
                   (InOpts \<lparr>skip = Some (Finite 60), limit = Some (Finite 0), filter_fn = None,
                            skipCache = None\<rparr> (Some [JStr ''A''])) emptyWorld)) ''Q:h1["A"]''
       = Some (RHash [(''V'', HBson []), (''O'', HStr []), (''P'', HStr [])])
   \<and> candidate (sampleExternals seventyUsers) usersByOrg
        \<lparr>po_query = JObj [(''orgId'', JStr ''A'')], po_key = ''Q:h1["A"]'',
           po_exec = \<lparr>skip = Some (Finite 60), limit = Some (Finite 0), filter_fn = None,
                      skipCache = None\<rparr>\<rparr> emptyWorld
       = take 50 seventyUsers
   \<and> drop 60 (take 50 seventyUsers) = []
   \<and> fst (exec (sampleExternals seventyUsers) usersByOrg
            (InOpts \<lparr>skip = Some (Finite 60), limit = Some (Finite 0), filter_fn = None,
                     skipCache = None\<rparr> (Some [JStr ''A''])) emptyWorld)
       = Inr []
   \<and> fst (execMongo (sampleExternals seventyUsers) usersByOrg
            (InOpts \<lparr>skip = Some (Finite 60), limit = Some (Finite 0), filter_fn = None,
                     skipCache = None\<rparr> (Some [JStr ''A''])) emptyWorld)
       = Inr (drop 60 seventyUsers)
   \<and> length (drop 60 seventyUsers) = 10\<close>
proof -
  let ?e = "\<lparr>skip = Some (Finite 60), limit = Some (Finite 0), filter_fn = None :: (jsval \<Rightarrow> bool) option,
             skipCache = None\<rparr>"
  let ?ext = "sampleExternals seventyUsers"
  note p = parse_opts [of ?e]
  have c: "cacheCount (config usersByOrg) = Finite 50" by (simp add: usersByOrg_def)
  have g: "count_gt (count_add (Finite 0) (Finite 60)) (cacheCount (config usersByOrg))"
    by (simp add: c)
  have n: "\<not> outsideCacheable (cacheCount (config usersByOrg)) (Finite 60) (Some (Finite 0))"
    by (simp add: c outsideCacheable_def)
  have t: \<open>trace (snd (exec (sampleExternals []) usersByOrg (InOpts ?e (Some [JStr ''A''])) emptyWorld))
       = [HGetBuffer ''Q:h1["A"]'' ''V'',
          MongoFind \<lparr>find_model = ''User'', find_filter = JObj [(''orgId'', JStr ''A'')],
                     find_sort = None, find_skip = None, find_limit = Some (Finite 50),
                     find_select = None, find_populate = []\<rparr>,
          MultiExec [''Q:h1["A"]'', ''Q:h1["A"]'', ''Q:h1["A"]'', ''Q:h1["A"]'', ''A:h1'',
                     ''Q:h1["A"]'', ''A:h1'']]\<close>
    by code_simp
  have s: \<open>store (snd (exec (sampleExternals []) usersByOrg (InOpts ?e (Some [JStr ''A''])) emptyWorld))
         ''Q:h1["A"]''
       = Some (RHash [(''V'', HBson []), (''O'', HStr []), (''P'', HStr [])])\<close>
    by code_simp
  have r: "fst (readCache k emptyWorld) = None" for k :: string
    by (simp add: readCache_def hgetBuffer_def emptyWorld_def log_event_def)
  have cand: \<open>candidate ?ext usersByOrg
        \<lparr>po_query = JObj [(''orgId'', JStr ''A'')], po_key = ''Q:h1["A"]'', po_exec = ?e\<rparr> emptyWorld
       = take 50 seventyUsers\<close>
    by (simp add: candidate_def r opt_skipCache_def c fresh_limit_def no_opts_def)
       (simp add: buildQuery_def Let_def usersByOrg_def sampleExternals_def window_def)
  have d: "drop 60 (take 50 seventyUsers) = []" by simp
  have x: \<open>fst (exec ?ext usersByOrg (InOpts ?e (Some [JStr ''A''])) emptyWorld) = Inr []\<close>
    using exec_result_cached_path [OF p, of ?ext emptyWorld] n
    by (simp add: opt_skip_def cand apply_filter_def)
       (simp add: sampleExternals_def window_def)
  have m: \<open>fst (execMongo ?ext usersByOrg (InOpts ?e (Some [JStr ''A''])) emptyWorld)
       = Inr (drop 60 seventyUsers)\<close>
    by (simp add: execMongo_def p)
       (simp add: buildQuery_def Let_def usersByOrg_def sampleExternals_def window_def)
  have l: "length (drop 60 seventyUsers) = 10" by (simp add: length_seventyUsers)
  show ?thesis
    using g n t s cand d x m l by blast
qed


text \<open>
  C5 as stated fails on the path that answers from the source of truth directly: with
  \<open>cacheCount = 50\<close>, no limit and a filter that rejects every document, \<open>exec\<close> returns
  the document the source of truth has, where filtering first would leave nothing.
\<close>

theorem exec_filter_counterexample:
  \<open>exec (sampleExternals [sampleDoc]) usersByOrg
       (InOpts \<lparr>skip = None, limit = None, filter_fn = Some (\<lambda>d. False), skipCache = None\<rparr>
          (Some [JStr ''A''])) emptyWorld
     = (Inr [sampleDoc],
        emptyWorld\<lparr>trace :=
          [MongoFind \<lparr>find_model = ''User'', find_filter = JObj [(''orgId'', JStr ''A'')],
                      find_sort = None, find_skip = None, find_limit = None,
                      find_select = None, find_populate = []\<rparr>]\<rparr>)
   \<and> skipAndLimit (sampleExternals [sampleDoc]) (filter (\<lambda>d. False) [sampleDoc]) (Finite 0) None
       = []\<close>
proof -
  let ?e = "\<lparr>skip = None, limit = None, filter_fn = Some (\<lambda>d :: jsval. False), skipCache = None\<rparr>"
  have a: "outsideCacheable (Finite 50) (Finite 0) None" by (simp add: outsideCacheable_def)
  have c: "cacheCount (config usersByOrg) = Finite 50" by (simp add: usersByOrg_def)
  note p = parse_opts [of ?e]
  from exec_bypass [OF p, of "sampleExternals [sampleDoc]" emptyWorld] a
  show ?thesis
    by (simp add: c opt_skip_def)
       (simp add: sampleExternals_def window_def buildQuery_def usersByOrg_def emptyWorld_def
          log_event_def)
qed

theorem exec_filter_then_window_witness:
  \<open>fst (exec (sampleExternals [sampleDoc, JObj [(''orgId'', JStr ''B'')]]) usersByOrg
          (InOpts \<lparr>skip = None, limit = Some (Finite 10),
                   filter_fn = Some (\<lambda>d. field_of d ''orgId'' = JStr ''B''), skipCache = None\<rparr>
             (Some [JStr ''A''])) emptyWorld)
     = Inr [JObj [(''orgId'', JStr ''B'')]]
   \<and> fst (exec (sampleExternals [sampleDoc, JObj [(''orgId'', JStr ''B'')]]) adultUsers
          (InOpts \<lparr>skip = None, limit = None,
                   filter_fn = Some (\<lambda>d. field_of d ''orgId'' = JStr ''B''), skipCache = None\<rparr>
             None) emptyWorld)
     = Inr [JObj [(''orgId'', JStr ''B'')]]\<close>
proof -
  have b: "\<not> outsideCacheable (Finite 50) (Finite 0) (Some (Finite 10))"
    by (simp add: outsideCacheable_def)
  have c: "cacheCount (config usersByOrg) = Finite 50" "cacheCount (config adultUsers) = Infinity"
    "unique (config usersByOrg) = False" "unique (config adultUsers) = False"
    by (simp_all add: usersByOrg_def adultUsers_def)
  have r: "fst (readCache k (emptyWorld :: jsval world)) = None" for k
    by (simp add: readCache_result emptyWorld_def)
  have m: "mongoose_find (sampleExternals [sampleDoc, JObj [(''orgId'', JStr ''B'')]])
             (buildQuery cq \<lparr>po_query = q, po_key = k, po_exec = no_opts\<lparr>limit := Some l\<rparr>\<rparr>)
           = (if unique (config cq)
              then take_count (Finite 1) [sampleDoc, JObj [(''orgId'', JStr ''B'')]]
              else if count_truthy l \<and> l \<noteq> Infinity
              then take_count l [sampleDoc, JObj [(''orgId'', JStr ''B'')]]
              else [sampleDoc, JObj [(''orgId'', JStr ''B'')]])" for cq q k l
    by (simp add: sampleExternals_def buildQuery_def no_opts_def window_def Let_def)
  have f: "field_of sampleDoc ''orgId'' = JStr ''A''"
    "field_of (JObj [(''orgId'', JStr ''B'')]) ''orgId'' = JStr ''B''"
    by (simp_all add: sampleDoc_def field_of_def)
  have s: "skipAndLimit (sampleExternals ds) xs sk lim = window xs sk lim" for ds xs sk lim
    by (simp add: sampleExternals_def)
  show ?thesis
    using exec_filter_then_window
        [OF parse_opts, of "\<lparr>skip = None, limit = Some (Finite 10),
               filter_fn = Some (\<lambda>d. field_of d ''orgId'' = JStr ''B''), skipCache = None\<rparr>"
            "\<lambda>d. field_of d ''orgId'' = JStr ''B''"
            "sampleExternals [sampleDoc, JObj [(''orgId'', JStr ''B'')]]" emptyWorld]
      exec_filter_then_window
        [OF parse_static, of "\<lparr>skip = None, limit = None,
               filter_fn = Some (\<lambda>d. field_of d ''orgId'' = JStr ''B''), skipCache = None\<rparr>"
            "\<lambda>d. field_of d ''orgId'' = JStr ''B''"
            "sampleExternals [sampleDoc, JObj [(''orgId'', JStr ''B'')]]" emptyWorld]
      b
    by (simp add: c opt_skip_def opt_skipCache_def candidate_def r fresh_limit_def m f s window_def
          Infinity_never_outside)
qed

theorem unique_empty_not_cached_witness:
  \<open>store (snd (exec (sampleExternals []) userByEmail (InParams [JStr ''a@b.c'']) emptyWorld))
     = store (emptyWorld :: jsval world)
   \<and> MongoFind \<lparr>find_model = ''User'', find_filter = JObj [(''email'', JStr ''a@b.c'')],
                 find_sort = None, find_skip = None, find_limit = Some (Finite 1),
                 find_select = None, find_populate = []\<rparr>
       \<in> set (drop (length (trace (snd (exec (sampleExternals []) userByEmail
                                          (InParams [JStr ''a@b.c'']) emptyWorld))))
                (trace (snd (exec (sampleExternals []) userByEmail (InParams [JStr ''a@b.c''])
                   (snd (exec (sampleExternals []) userByEmail
                           (InParams [JStr ''a@b.c'']) emptyWorld))))))
   \<and> fst (readCache ''Q:h3["a@b.c"]''
            (snd (exec (sampleExternals [sampleDoc]) userByEmail (InParams [JStr ''a@b.c''])
                    emptyWorld)))
       = Some [sampleDoc]\<close>
proof -
  have n: "\<not> outsideCacheable (cacheCount (config userByEmail)) sk lim" for sk lim
    by (simp add: userByEmail_def Infinity_never_outside)
  have r: "fst (readCache k (emptyWorld :: jsval world)) = None" for k
    by (simp add: readCache_result emptyWorld_def)
  have c: "unique (config userByEmail)" "cacheCount (config userByEmail) = Infinity"
    by (simp_all add: userByEmail_def)
  have q: "buildQuery userByEmail
             \<lparr>po_query = JObj [(''email'', JStr ''a@b.c'')], po_key = k, po_exec = e\<rparr>
           = \<lparr>find_model = ''User'', find_filter = JObj [(''email'', JStr ''a@b.c'')],
                 find_sort = None, find_skip = None, find_limit = Some (Finite 1),
                 find_select = None, find_populate = []\<rparr>" for k e
    by (simp add: buildQuery_def userByEmail_def)
  have m: "mongoose_find (sampleExternals ds)
             \<lparr>find_model = ''User'', find_filter = JObj [(''email'', JStr ''a@b.c'')],
                 find_sort = None, find_skip = None, find_limit = Some (Finite 1),
                 find_select = None, find_populate = []\<rparr> = take 1 ds" for ds
    by (simp add: sampleExternals_def window_def)
  have u: "redis_up (emptyWorld :: jsval world)" by (simp add: emptyWorld_def)
  show ?thesis
    using unique_empty_not_cached [OF parse_email n, of emptyWorld "sampleExternals []"]
      unique_empty_not_cached [OF parse_email n, of emptyWorld "sampleExternals [sampleDoc]"]
    by (simp add: r c fresh_limit_def q m u)
qed

theorem invalidate_records_existing_witness:
  \<open>fst (invalidate [''K1'', ''K9'', ''K1''] ({}, removalWorld)) = Inr ()
   \<and> fst (snd (invalidate [''K1'', ''K9'', ''K1''] ({}, removalWorld))) = {''K1''}
   \<and> store (snd (snd (invalidate [''K1'', ''K9'', ''K1''] ({}, removalWorld)))) ''K1'' = None
   \<and> store (snd (snd (invalidate [''K1'', ''K9'', ''K1''] ({}, removalWorld)))) ''K2''
       = Some (RHash [(''V'', HBson [])])
   \<and> trace (snd (snd (invalidate [''K1'', ''K9'', ''K1''] ({}, removalWorld))))
       = [MultiExec [''K1'', ''K9'', ''K1'']]
   \<and> fst (snd (invalidate [''K1'', ''K9'', ''K1'']
                 ({}, snd (snd (invalidate [''K1'', ''K9'', ''K1''] ({}, removalWorld)))))) = {}\<close>
proof -
  have u: "redis_up removalWorld" by (simp add: removalWorld_def)
  have e: "{k \<in> set [''K1'', ''K9'', ''K1'']. k \<noteq> [] \<and> store removalWorld k \<noteq> None} = {''K1''}"
    by (auto simp: removalWorld_def)
  have s: "store removalWorld ''K2'' = Some (RHash [(''V'', HBson [])])"
    by (simp add: removalWorld_def)
  have t: "trace removalWorld = []" by (simp add: removalWorld_def)
  have ne: "[''K1'', ''K9'', ''K1''] \<noteq> ([] :: string list)" by simp
  show ?thesis
    using invalidate_records_existing [OF u ne, of "{}", unfolded e]
    by (simp add: s t)
qed

theorem remove_invalidates_union_witness:
  \<open>fst (doRemoveInvalidation [''x'', ''y''] ({}, removalWorld)) = Inr ()
   \<and> fst (snd (doRemoveInvalidation [''x'', ''y''] ({}, removalWorld))) = {''K1'', ''K2''}
   \<and> store (snd (snd (doRemoveInvalidation [''x'', ''y''] ({}, removalWorld)))) ''K1'' = None
   \<and> store (snd (snd (doRemoveInvalidation [''x'', ''y''] ({}, removalWorld)))) ''K2'' = None
   \<and> store (snd (snd (doRemoveInvalidation [''x'', ''y''] ({}, removalWorld)))) ''K3''
       = Some (RHash [(''V'', HBson [])])\<close>
proof -
  have u: "redis_up removalWorld" by (simp add: removalWorld_def)
  have h: "\<forall>id \<in> set [''x'', ''y''].
      \<not> is_hash (store removalWorld (''O:'' @ id)) \<and> \<not> is_hash (store removalWorld (''P:'' @ id))"
    by (simp add: removalWorld_def)
  have U: "removedKeys [''x'', ''y''] removalWorld = {''K1'', ''K2''}"
    by (auto simp: removedKeys_def removalWorld_def)
  have e: "{k \<in> {''K1'', ''K2''}. k \<noteq> [] \<and> store removalWorld k \<noteq> None} = {''K1'', ''K2''}"
    by (auto simp: removalWorld_def)
  have s: "store removalWorld ''K3'' = Some (RHash [(''V'', HBson [])])"
    by (simp add: removalWorld_def)
  have ne: "[''x'', ''y''] \<noteq> ([] :: string list)" by simp
  show ?thesis
    using remove_invalidates_union [OF u ne h, of "{}", unfolded U e]
    by (simp add: s)
qed

text \<open>
  The copy of the handler in the unnamed source file resolves only the primary members:
  in the scenario it finds \<open>K1\<close> and misses \<open>K2\<close>.
\<close>

lemma primaryOnly_misses_populated:
  \<open>fst (dependentKeys_primaryOnly [''x'', ''y''] removalWorld) = Inr [''K1'']\<close>
  by (simp add: dependentKeys_primaryOnly_def sunion_def removalWorld_def Let_def)

subsection \<open>Cache keys\<close>

text \<open>
  C2. The parse is not the inverse of key construction for a parameter that
  \<open>EJSON.stringify\<close> encodes as a wrapper object, since \<open>parseCacheKey\<close> decodes with
  \<open>JSON.parse\<close>: an ObjectId comes back as the plain object \<open>{$oid: ...}\<close>, a date as
  the plain object \<open>{$date: ...}\<close>, and \<open>undefined\<close> as \<open>null\<close>.
\<close>

theorem parseCacheKey_not_inverse:
  \<open>getCacheKey usersByOrg [JObjectId ''507f1f77bcf86cd799439011'']
     = Inr ''Q:h1[{"$oid":"507f1f77bcf86cd799439011"}]''
   \<and> parseCacheKey ''Q:h1[{"$oid":"507f1f77bcf86cd799439011"}]''
     = Inr (''h1'', JArr [JObj [(''$oid'', JStr ''507f1f77bcf86cd799439011'')]])
   \<and> getCacheKey usersByOrg [JDate 0] = Inr ''Q:h1[{"$date":"1970-01-01T00:00:00Z"}]''
   \<and> parseCacheKey ''Q:h1[{"$date":"1970-01-01T00:00:00Z"}]''
     = Inr (''h1'', JArr [JObj [(''$date'', JStr ''1970-01-01T00:00:00Z'')]])
   \<and> getCacheKey usersByOrg [JUndefined] = Inr ''Q:h1[null]''
   \<and> parseCacheKey ''Q:h1[null]'' = Inr (''h1'', JArr [JNull])\<close>
  by code_simp

subsection \<open>The round trip of plain parameters: decimal numerals\<close>

lemma is_digit_digit_char: "d < 10 \<Longrightarrow> is_digit (digit_char d) \<and> digit_val (digit_char d) = d"
  by (simp add: is_digit_def digit_val_def digit_char_def)

lemma show_nat_digits: "list_all is_digit (show_nat n) \<and> show_nat n \<noteq> []"
proof (induction n rule: show_nat.induct)
  case (1 n)
  show ?case
  proof (cases "n < 10")
    case True
    then show ?thesis by (subst (1 2) show_nat.simps) (simp add: is_digit_digit_char)
  next
    case False
    with 1 show ?thesis
      by (subst (1 2) show_nat.simps) (simp add: is_digit_digit_char)
  qed
qed

lemma parse_digits_append:
  "list_all is_digit ds \<Longrightarrow> parse_digits (ds @ r) acc = parse_digits r (fold (\<lambda>c a. 10 * a + digit_val c) ds acc)"
  by (induction ds arbitrary: acc) simp_all

lemma fold_show_nat:
  "fold (\<lambda>c a. 10 * a + digit_val c) (show_nat n) acc = acc * 10 ^ length (show_nat n) + n"
proof (induction n arbitrary: acc rule: show_nat.induct)
  case (1 n)
  show ?case
  proof (cases "n < 10")
    case True
    then show ?thesis by (subst (1 2) show_nat.simps) (simp add: is_digit_digit_char)
  next
    case False
    then have s: "show_nat n = show_nat (n div 10) @ [digit_char (n mod 10)]"
      by (subst show_nat.simps) simp
    have "n mod 10 < 10" by simp
    with 1 [OF False] show ?thesis
      by (simp add: s is_digit_digit_char algebra_simps)
  qed
qed

lemma parse_digits_stop: "not_digit_start r \<Longrightarrow> parse_digits r acc = (acc, r)"
  by (cases r) (simp_all add: not_digit_start_def)

lemma parse_digits_show_nat:
  "not_digit_start r \<Longrightarrow> parse_digits (show_nat n @ r) 0 = (n, r)"
  using show_nat_digits [of n]
  by (simp add: parse_digits_append fold_show_nat parse_digits_stop)

lemma show_nat_hd: "\<exists>d ds. show_nat n = digit_char d # ds \<and> d < 10 \<and> (d = 0 \<longrightarrow> n = 0 \<and> ds = [])"
proof (induction n rule: show_nat.induct)
  case (1 n)
  show ?case
  proof (cases "n < 10")
    case True
    then show ?thesis by (subst show_nat.simps) auto
  next
    case False
    then have s: "show_nat n = show_nat (n div 10) @ [digit_char (n mod 10)]"
      by (subst show_nat.simps) simp
    from 1 [OF False] obtain d ds where
      "show_nat (n div 10) = digit_char d # ds" "d < 10" "d = 0 \<longrightarrow> n div 10 = 0 \<and> ds = []"
      by blast
    with False show ?thesis by (auto simp: s)
  qed
qed

subsection \<open>The round trip of plain parameters: numbers\<close>

lemma ok_rest_not_digit: "ok_rest r \<Longrightarrow> not_digit_start r \<and> \<not> starts_fraction r"
  by (cases r) (auto simp: ok_rest_def not_digit_start_def starts_fraction_def is_digit_def)

lemma of_char_digit_char: "d < 10 \<Longrightarrow> (of_char (digit_char d) :: nat) = 48 + d"
  by (simp add: digit_char_def)

lemma digit_char_neq: "d < 10 \<Longrightarrow> digit_char d \<noteq> CHR ''-''"
proof
  assume d: "d < 10" and "digit_char d = CHR ''-''"
  then have "(of_char (digit_char d) :: nat) = of_char CHR ''-''" by simp
  with of_char_digit_char [OF d] show False by simp
qed

lemma digit_char_zero: "d < 10 \<Longrightarrow> digit_char d = CHR ''0'' \<Longrightarrow> d = 0"
proof -
  assume d: "d < 10" and "digit_char d = CHR ''0''"
  then have "(of_char (digit_char d) :: nat) = of_char CHR ''0''" by simp
  with of_char_digit_char [OF d] show "d = 0" by simp
qed

lemma parse_number_nat:
  assumes "ok_rest r"
  shows "parse_number (show_nat n @ r) = Inr (JNum (int n), r)"
proof -
  from show_nat_hd [of n] obtain d ds where
    s: "show_nat n = digit_char d # ds" and d: "d < 10" and z: "d = 0 \<longrightarrow> n = 0 \<and> ds = []"
    by blast
  from assms have r: "not_digit_start r" "\<not> starts_fraction r" by (simp_all add: ok_rest_not_digit)
  have lead: "\<not> (digit_char d = CHR ''0'' \<and> (case ds @ r of [] \<Rightarrow> False | d2 # x \<Rightarrow> is_digit d2))"
  proof
    assume a: "digit_char d = CHR ''0'' \<and> (case ds @ r of [] \<Rightarrow> False | d2 # x \<Rightarrow> is_digit d2)"
    with d have "d = 0" by (simp add: digit_char_zero)
    with z have "ds = []" by simp
    with a r(1) show False by (cases r) (simp_all add: not_digit_start_def)
  qed
  have pd: "parse_digits (digit_char d # ds @ r) 0 = (n, r)"
    using parse_digits_show_nat [OF r(1), of n] by (simp add: s)
  show ?thesis
    using d lead r(2) pd
    by (simp add: parse_number_def s digit_char_neq is_digit_digit_char del: parse_digits.simps)
qed

lemma parse_number_int:
  assumes "ok_rest r"
  shows "parse_number (show_int i @ r) = Inr (JNum i, r)"
proof (cases "i < 0")
  case False
  with parse_number_nat [OF assms, of "nat i"] show ?thesis by (simp add: show_int_def)
next
  case True
  from show_nat_hd [of "nat (- i)"] obtain d ds where
    s: "show_nat (nat (- i)) = digit_char d # ds" and d: "d < 10"
    and z: "d = 0 \<longrightarrow> nat (- i) = 0 \<and> ds = []"
    by blast
  from assms have r: "not_digit_start r" "\<not> starts_fraction r" by (simp_all add: ok_rest_not_digit)
  have lead: "\<not> (digit_char d = CHR ''0'' \<and> (case ds @ r of [] \<Rightarrow> False | d2 # x \<Rightarrow> is_digit d2))"
  proof
    assume a: "digit_char d = CHR ''0'' \<and> (case ds @ r of [] \<Rightarrow> False | d2 # x \<Rightarrow> is_digit d2)"
    with d have "d = 0" by (simp add: digit_char_zero)
    with z have "ds = []" by simp
    with a r(1) show False by (cases r) (simp_all add: not_digit_start_def)
  qed
  have pd: "parse_digits (digit_char d # ds @ r) 0 = (nat (- i), r)"
    using parse_digits_show_nat [OF r(1), of "nat (- i)"] by (simp add: s)
  show ?thesis
    using True d lead r(2) pd
    by (simp add: parse_number_def show_int_def s is_digit_digit_char del: parse_digits.simps)
qed

subsection \<open>The round trip of plain parameters: strings\<close>

lemma consE_Inr [simp]: "consE x (Inr (s, r)) = Inr (x # s, r)"
  by (simp add: consE_def)

lemma hex_val_hex_digit: "d < 16 \<Longrightarrow> hex_val (hex_digit d) = Some d"
  by (auto simp: hex_val_def hex_digit_def Let_def)

lemma parse_chars_escape:
  "parse_chars rest = Inr (s, r) \<Longrightarrow> parse_chars (json_escape c @ rest) = Inr (c # s, r)"
proof -
  assume p: "parse_chars rest = Inr (s, r)"
  consider (dq) "c = CHR 0x22" | (bs) "c = CHR 0x5C" | (b) "c = CHR 0x08" | (t) "c = CHR 0x09"
    | (n) "c = CHR 0x0A" | (f) "c = CHR 0x0C" | (r) "c = CHR 0x0D"
    | (ctl) "c \<notin> {CHR 0x22, CHR 0x5C, CHR 0x08, CHR 0x09, CHR 0x0A, CHR 0x0C, CHR 0x0D}"
        "(of_char c :: nat) < 32"
    | (raw) "c \<notin> {CHR 0x22, CHR 0x5C, CHR 0x08, CHR 0x09, CHR 0x0A, CHR 0x0C, CHR 0x0D}"
        "\<not> (of_char c :: nat) < 32"
    by blast
  then show ?thesis
  proof cases
    case ctl
    let ?n = "of_char c :: nat"
    have h: "hex_val (hex_digit (?n div 16)) = Some (?n div 16)"
      "hex_val (hex_digit (?n mod 16)) = Some (?n mod 16)"
      using ctl(2) by (simp_all add: hex_val_hex_digit)
    have z: "hex_val CHR ''0'' = Some 0" by (simp add: hex_val_def)
    have v: "?n div 16 * 16 + ?n mod 16 = ?n" by simp
    have lt: "?n div 16 * 16 + ?n mod 16 < 256" using ctl(2) by simp
    from ctl p show ?thesis
      by (simp add: json_escape_def h z lt v del: div_mult_mod_eq)
  next
    case raw
    with p show ?thesis by (simp add: json_escape_def)
  qed (use p in \<open>simp_all add: json_escape_def unescape_def\<close>)
qed

lemma parse_chars_quote:
  "parse_chars (concat (map json_escape s) @ CHR 0x22 # r) = Inr (s, r)"
proof (induction s)
  case Nil
  show ?case by simp
next
  case (Cons c s)
  from parse_chars_escape [OF Cons.IH, of c] show ?case by simp
qed

subsection \<open>The round trip of plain parameters: values\<close>

lemma skip_ws_good: "good t \<Longrightarrow> skip_ws (t @ r) = t @ r"
  by (cases t) (simp_all add: good_def skip_ws_def)

lemma skip_ws_sep [simp]:
  "skip_ws (CHR '','' # r) = CHR '','' # r"
  "skip_ws (CHR '']'' # r) = CHR '']'' # r"
  "skip_ws (CHR ''}'' # r) = CHR ''}'' # r"
  "skip_ws (CHR '':'' # r) = CHR '':'' # r"
  "skip_ws (CHR 0x22 # r) = CHR 0x22 # r"
  by (simp_all add: skip_ws_def is_ws_def)

lemma ok_rest_sep [simp]:
  "ok_rest (CHR '','' # r)" "ok_rest (CHR '']'' # r)" "ok_rest (CHR ''}'' # r)" "ok_rest []"
  by (simp_all add: ok_rest_def)

lemma back_parse:
  "parses_back v \<Longrightarrow> ok_rest r \<Longrightarrow> 2 * length (jtext v @ r) + 1 \<le> n \<Longrightarrow>
   parse_value n (jtext v @ r) = Inr (v, r)"
  by (simp add: parses_back_def)

lemma back_length: "parses_back v \<Longrightarrow> 1 \<le> length (jtext v)"
  by (cases "jtext v") (simp_all add: parses_back_def good_def)

lemma parse_elems_texts:
  "\<forall>x \<in> set xs. parses_back x \<Longrightarrow> xs \<noteq> [] \<Longrightarrow>
   2 * length (commas (map jtext xs) @ CHR '']'' # r) + 2 \<le> n \<Longrightarrow>
   parse_elems n (commas (map jtext xs) @ CHR '']'' # r) acc = Inr (JArr (acc @ xs), r)"
proof (induction xs arbitrary: n acc)
  case Nil
  then show ?case by simp
next
  case (Cons x xs)
  from Cons.prems(3) obtain m where n: "n = Suc m" by (cases n) simp_all
  from Cons.prems(1) have bx: "parses_back x" by simp
  show ?case
  proof (cases xs)
    case Nil
    from Cons.prems(3) have "2 * length (jtext x @ CHR '']'' # r) + 1 \<le> m"
      by (simp add: n Nil)
    from back_parse [OF bx _ this]
    have "parse_value m (jtext x @ CHR '']'' # r) = Inr (x, CHR '']'' # r)" by simp
    then show ?thesis by (simp add: n Nil)
  next
    case (Cons y ys)
    let ?rest = "commas (map jtext (y # ys)) @ CHR '']'' # r"
    have c: "commas (map jtext (x # xs)) @ CHR '']'' # r = jtext x @ CHR '','' # ?rest"
      by (simp add: Cons)
    from Cons.prems(3) have "2 * length (jtext x @ CHR '','' # ?rest) + 1 \<le> m"
      unfolding c by (simp add: n)
    from back_parse [OF bx _ this]
    have pv: "parse_value m (jtext x @ CHR '','' # ?rest) = Inr (x, CHR '','' # ?rest)" by simp
    from Cons.prems(3) back_length [OF bx] have "2 * length ?rest + 2 \<le> m"
      unfolding c by (simp add: n)
    with Cons.IH [of m "acc @ [x]"] Cons.prems(1) Cons
    have "parse_elems m ?rest (acc @ [x]) = Inr (JArr (acc @ x # xs), r)" by simp
    with pv show ?thesis unfolding c by (simp add: n)
  qed
qed

lemma hd_commas: "ts \<noteq> [] \<Longrightarrow> hd ts \<noteq> [] \<Longrightarrow> hd (commas ts @ r) = hd (hd ts)"
  by (cases ts rule: commas.cases) (simp_all add: hd_append)

lemma commas_no_lt:
  "\<forall>t \<in> set ts. \<not> list_ex is_line_terminator t \<Longrightarrow> \<not> list_ex is_line_terminator (commas ts)"
  by (induction ts rule: commas.induct) (simp_all add: is_line_terminator_def)

lemma back_JArr:
  assumes "\<forall>x \<in> set xs. parses_back x"
  shows "parses_back (JArr xs)"
proof -
  have st: "map json_element (map json_stringify xs) = map jtext xs"
    "map (json_element \<circ> json_stringify) xs = map jtext xs"
    by (simp_all add: jtext_def)
  have jt: "jtext (JArr xs) = CHR ''['' # commas (map jtext xs) @ '']''"
    by (simp add: jtext_def json_element_def st)
  have ser: "serializeValue (JArr xs) = JArr xs"
    using assms by (simp add: parses_back_def map_idI)
  have nolt: "\<not> list_ex is_line_terminator (commas (map jtext xs))"
    using assms by (intro commas_no_lt) (simp add: parses_back_def good_def)
  have g: "good (jtext (JArr xs))"
    using nolt by (simp add: jt good_def is_ws_def is_line_terminator_def)
  have p: "parse_value n (jtext (JArr xs) @ r) = Inr (JArr xs, r)"
    if "ok_rest r" and f: "2 * length (jtext (JArr xs) @ r) + 1 \<le> n" for n r
  proof -
    from f obtain m where n: "n = Suc m" by (cases n) simp_all
    show ?thesis
    proof (cases "xs = []")
      case True
      with jt have "jtext (JArr xs) @ r = CHR ''['' # CHR '']'' # r" by simp
      with True show ?thesis by (simp add: n skip_ws_def is_ws_def)
    next
      case False
      let ?body = "commas (map jtext xs) @ CHR '']'' # r"
      from False assms have h: "good (jtext (hd xs))" by (cases xs) (simp_all add: parses_back_def)
      from False h have "hd ?body = hd (jtext (hd xs))"
        by (subst hd_commas) (simp_all add: good_def hd_map)
      with h have b: "?body \<noteq> []" "\<not> is_ws (hd ?body)" "hd ?body \<noteq> CHR '']''"
        by (simp_all add: good_def)
      then have sk: "skip_ws ?body = ?body" by (cases ?body) (simp_all add: skip_ws_def)
      from b have nb: "take 1 ?body \<noteq> '']''" by (cases ?body) simp_all
      from f have "2 * length ?body + 2 \<le> m" by (simp add: jt n)
      from parse_elems_texts [OF assms False this, of "[]"]
      have "parse_elems m ?body [] = Inr (JArr xs, r)" by simp
      with sk nb show ?thesis by (simp add: jt n skip_ws_def is_ws_def)
    qed
  qed
  have "json_stringify (JArr xs) = Some (jtext (JArr xs))"
    by (simp add: jtext_def json_element_def)
  with ser g p show ?thesis unfolding parses_back_def by blast
qed

subsection \<open>The round trip of plain parameters: objects\<close>

lemma update_fresh: "k \<notin> fst ` set al \<Longrightarrow> AList.update k v al = al @ [(k, v)]"
  by (induction al) auto

lemma members_texts:
  "\<forall>kv \<in> set fs. json_stringify (snd kv) = Some (jtext (snd kv)) \<Longrightarrow>
   List.map_filter json_member (map (map_prod id json_stringify) fs) = map mtext fs"
  by (induction fs) (auto simp: List.map_filter_simps json_member_def mtext_def)

lemma parse_members_texts:
  "\<forall>kv \<in> set fs. parses_back (snd kv) \<and> \<not> is_array_index (fst kv) \<Longrightarrow> fs \<noteq> [] \<Longrightarrow>
   distinct (map fst (acc @ fs)) \<Longrightarrow>
   2 * length (commas (map mtext fs) @ CHR ''}'' # r) + 2 \<le> n \<Longrightarrow>
   parse_members n (commas (map mtext fs) @ CHR ''}'' # r) acc = Inr (JObj (acc @ fs), r)"
proof (induction fs arbitrary: n acc)
  case Nil
  then show ?case by simp
next
  case (Cons kv fs)
  obtain k v where kv: "kv = (k, v)" by (cases kv)
  from Cons.prems(4) obtain m where n: "n = Suc m" by (cases n) simp_all
  from Cons.prems(1) have bv: "parses_back v" and ni: "\<not> is_array_index k" by (simp_all add: kv)
  from Cons.prems(3) have fresh: "k \<notin> fst ` set acc" by (auto simp: kv)
  have up: "AList.update k v acc = acc @ [(k, v)]" by (rule update_fresh [OF fresh])
  have gv: "good (jtext v)" using bv by (simp add: parses_back_def)
  show ?case
  proof (cases fs)
    case Nil
    let ?s = "CHR 0x22 # concat (map json_escape k) @ CHR 0x22 # CHR '':'' # jtext v @ CHR ''}'' # r"
    have c: "commas (map mtext (kv # fs)) @ CHR ''}'' # r = ?s"
      by (simp add: Nil kv mtext_def json_quote_def)
    have pc: "parse_chars (concat (map json_escape k) @ CHR 0x22 # CHR '':'' # jtext v @ CHR ''}'' # r)
        = Inr (k, CHR '':'' # jtext v @ CHR ''}'' # r)"
      by (rule parse_chars_quote)
    from Cons.prems(4) have "2 * length (jtext v @ CHR ''}'' # r) + 1 \<le> m"
      unfolding c by (simp add: n)
    from back_parse [OF bv _ this]
    have pv: "parse_value m (jtext v @ CHR ''}'' # r) = Inr (v, CHR ''}'' # r)" by simp
    show ?thesis
      unfolding c by (simp add: n pc pv ni up Nil kv)
  next
    case (Cons kv' fs')
    define rest where "rest = commas (map mtext (kv' # fs')) @ CHR ''}'' # r"
    let ?s = "CHR 0x22 # concat (map json_escape k) @ CHR 0x22 # CHR '':'' # jtext v @ CHR '','' # rest"
    have c: "commas (map mtext (kv # fs)) @ CHR ''}'' # r = ?s"
      by (simp add: Cons kv mtext_def json_quote_def rest_def)
    have pc: "parse_chars (concat (map json_escape k) @ CHR 0x22 # CHR '':'' # jtext v @ CHR '','' # rest)
        = Inr (k, CHR '':'' # jtext v @ CHR '','' # rest)"
      by (rule parse_chars_quote)
    from Cons.prems(4) have "2 * length (jtext v @ CHR '','' # rest) + 1 \<le> m"
      unfolding c by (simp add: n)
    from back_parse [OF bv _ this]
    have pv: "parse_value m (jtext v @ CHR '','' # rest) = Inr (v, CHR '','' # rest)" by simp
    from Cons.prems(4) have f: "2 * length rest + 2 \<le> m"
      unfolding c by (simp add: n)
    from Cons.prems(3) have d: "distinct (map fst ((acc @ [(k, v)]) @ fs))" by (simp add: kv)
    have b': "\<forall>kv \<in> set fs. parses_back (snd kv) \<and> \<not> is_array_index (fst kv)"
      using Cons.prems(1) by simp
    have ne: "fs \<noteq> []" by (simp add: Cons)
    have f': "2 * length (commas (map mtext fs) @ CHR ''}'' # r) + 2 \<le> m"
      using f by (simp add: rest_def Cons)
    from Cons.IH [OF b' ne d f']
    have "parse_members m rest (acc @ [(k, v)]) = Inr (JObj (acc @ (k, v) # fs), r)"
      by (simp add: rest_def Cons)
    then show ?thesis
      unfolding c by (simp add: n pc pv ni up kv)
  qed
qed

lemma hex_digit_no_lt: "d < 16 \<Longrightarrow> \<not> is_line_terminator (hex_digit d)"
proof
  assume d: "d < 16" and "is_line_terminator (hex_digit d)"
  then have "(of_char (hex_digit d) :: nat) = 10 \<or> (of_char (hex_digit d) :: nat) = 13"
    by (auto simp: is_line_terminator_def)
  with d show False by (auto simp: hex_digit_def split: if_splits)
qed

lemma json_escape_no_lt: "\<not> list_ex is_line_terminator (json_escape c)"
proof -
  have "(of_char c :: nat) < 256" by simp
  then have "(of_char c :: nat) div 16 < 16" "(of_char c :: nat) mod 16 < 16"
    by presburger+
  then have "\<not> is_line_terminator (hex_digit ((of_char c :: nat) div 16))"
    "\<not> is_line_terminator (hex_digit ((of_char c :: nat) mod 16))"
    by (simp_all add: hex_digit_no_lt)
  then show ?thesis
    by (simp add: json_escape_def is_line_terminator_def)
qed

lemma json_quote_no_lt: "\<not> list_ex is_line_terminator (json_quote s)"
  using json_escape_no_lt
  by (auto simp: json_quote_def list_ex_iff is_line_terminator_def)

lemma mtext_no_lt:
  "\<not> list_ex is_line_terminator (jtext (snd kv)) \<Longrightarrow> \<not> list_ex is_line_terminator (mtext kv)"
  using json_quote_no_lt [of "fst kv"] by (simp add: mtext_def is_line_terminator_def)

lemma back_JObj:
  assumes b: "\<forall>kv \<in> set fs. parses_back (snd kv) \<and> \<not> is_array_index (fst kv)"
    and d: "distinct (map fst fs)"
  shows "parses_back (JObj fs)"
proof -
  have sv: "\<forall>kv \<in> set fs. json_stringify (snd kv) = Some (jtext (snd kv))"
    using b by (simp add: parses_back_def)
  have jt: "jtext (JObj fs) = CHR ''{'' # commas (map mtext fs) @ ''}''"
    by (simp add: jtext_def json_element_def members_texts [OF sv])
  have "map (map_prod id serializeValue) fs = fs"
    using b by (intro map_idI) (auto simp: parses_back_def)
  then have ser: "serializeValue (JObj fs) = JObj fs" by simp
  have "\<not> list_ex is_line_terminator (mtext kv)" if "kv \<in> set fs" for kv
  proof -
    from b that have "good (jtext (snd kv))" by (simp add: parses_back_def)
    then show ?thesis by (intro mtext_no_lt) (simp add: good_def)
  qed
  then have "\<forall>t \<in> set (map mtext fs). \<not> list_ex is_line_terminator t" by auto
  then have nolt: "\<not> list_ex is_line_terminator (commas (map mtext fs))" by (rule commas_no_lt)
  have g: "good (jtext (JObj fs))"
    using nolt by (simp add: jt good_def is_ws_def is_line_terminator_def)
  have p: "parse_value n (jtext (JObj fs) @ r) = Inr (JObj fs, r)"
    if "ok_rest r" and f: "2 * length (jtext (JObj fs) @ r) + 1 \<le> n" for n r
  proof -
    from f obtain m where n: "n = Suc m" by (cases n) simp_all
    show ?thesis
    proof (cases "fs = []")
      case True
      with jt have "jtext (JObj fs) @ r = CHR ''{'' # CHR ''}'' # r" by simp
      with True show ?thesis by (simp add: n skip_ws_def is_ws_def)
    next
      case False
      let ?body = "commas (map mtext fs) @ CHR ''}'' # r"
      from False have "hd ?body = CHR 0x22"
        by (subst hd_commas) (simp_all add: hd_map mtext_def json_quote_def)
      moreover from False have "?body \<noteq> []" by simp
      ultimately obtain body' where bd: "?body = CHR 0x22 # body'" by (cases ?body) simp_all
      from f have "2 * length ?body + 2 \<le> m" by (simp add: jt n)
      from parse_members_texts [OF b False _ this, of "[]"] d
      have "parse_members m ?body [] = Inr (JObj fs, r)" by simp
      then show ?thesis by (simp add: jt n bd skip_ws_def is_ws_def)
    qed
  qed
  have "json_stringify (JObj fs) = Some (jtext (JObj fs))"
    by (simp add: jtext_def json_element_def)
  with ser g p show ?thesis unfolding parses_back_def by blast
qed

lemma back_JNull: "parses_back JNull"
proof -
  have "parse_value n (''null'' @ r) = Inr (JNull, r)" if "2 * length (''null'' @ r) + 1 \<le> n" for n r
  proof -
    from that obtain m where "n = Suc m" by (cases n) simp_all
    then show ?thesis by (simp add: skip_ws_def is_ws_def)
  qed
  then show ?thesis
    by (simp add: parses_back_def jtext_def json_element_def good_def is_ws_def is_line_terminator_def)
qed

lemma back_JBool: "parses_back (JBool b)"
proof -
  have "parse_value n (''true'' @ r) = Inr (JBool True, r)" if "2 * length (''true'' @ r) + 1 \<le> n" for n r
  proof -
    from that obtain m where "n = Suc m" by (cases n) simp_all
    then show ?thesis by (simp add: skip_ws_def is_ws_def)
  qed
  moreover
  have "parse_value n (''false'' @ r) = Inr (JBool False, r)" if "2 * length (''false'' @ r) + 1 \<le> n" for n r
  proof -
    from that obtain m where "n = Suc m" by (cases n) simp_all
    then show ?thesis by (simp add: skip_ws_def is_ws_def)
  qed
  ultimately show ?thesis
    by (cases b)
       (simp_all add: parses_back_def jtext_def json_element_def good_def is_ws_def
          is_line_terminator_def)
qed

lemma back_JStr: "parses_back (JStr s)"
proof -
  have "parse_value n (json_quote s @ r) = Inr (JStr s, r)" if "2 * length (json_quote s @ r) + 1 \<le> n" for n r
  proof -
    from that obtain m where "n = Suc m" by (cases n) simp_all
    then show ?thesis by (simp add: json_quote_def parse_chars_quote)
  qed
  moreover have "good (json_quote s)"
    using json_quote_no_lt [of s] by (simp add: good_def json_quote_def is_ws_def)
  ultimately show ?thesis
    by (simp add: parses_back_def jtext_def json_element_def)
qed

lemma is_digit_no_special:
  "is_digit c \<or> c = CHR ''-'' \<Longrightarrow>
   c \<noteq> CHR 0x22 \<and> c \<noteq> CHR ''['' \<and> c \<noteq> CHR ''{'' \<and> c \<noteq> CHR ''n'' \<and> c \<noteq> CHR ''t'' \<and> c \<noteq> CHR ''f''
   \<and> c \<noteq> CHR '']'' \<and> \<not> is_ws c \<and> \<not> is_line_terminator c"
  by (auto simp: is_digit_def is_ws_def is_line_terminator_def)

lemma show_int_chars: "show_int i \<noteq> [] \<and> (\<forall>c \<in> set (show_int i). is_digit c \<or> c = CHR ''-'')"
  using show_nat_digits [of "nat i"] show_nat_digits [of "nat (- i)"]
  by (auto simp: show_int_def list_all_iff)

lemma parse_value_number:
  "c \<noteq> CHR 0x22 \<Longrightarrow> c \<noteq> CHR ''['' \<Longrightarrow> c \<noteq> CHR ''{'' \<Longrightarrow> c \<noteq> CHR ''n'' \<Longrightarrow> c \<noteq> CHR ''t'' \<Longrightarrow>
   c \<noteq> CHR ''f'' \<Longrightarrow> \<not> is_ws c \<Longrightarrow> parse_value (Suc m) (c # t) = parse_number (c # t)"
  by (simp add: skip_ws_def)

lemma back_JNum: "parses_back (JNum i)"
proof -
  from show_int_chars [of i] obtain c cs where s: "show_int i = c # cs"
    and c: "is_digit c \<or> c = CHR ''-''" and all: "\<forall>c \<in> set (show_int i). is_digit c \<or> c = CHR ''-''"
    by (cases "show_int i") auto
  note sp = is_digit_no_special [OF c]
  have p: "parse_value n (show_int i @ r) = Inr (JNum i, r)"
    if ok: "ok_rest r" and f: "2 * length (show_int i @ r) + 1 \<le> n" for n r
  proof -
    from f obtain m where n: "n = Suc m" by (cases n) simp_all
    have "parse_value (Suc m) (c # (cs @ r)) = parse_number (c # (cs @ r))"
      using sp by (intro parse_value_number) simp_all
    moreover have "parse_number (c # (cs @ r)) = Inr (JNum i, r)"
      using parse_number_int [OF ok, of i] by (simp only: s append_Cons)
    ultimately show ?thesis by (simp only: n s append_Cons)
  qed
  have nolt: "\<not> list_ex is_line_terminator (show_int i)"
    unfolding list_ex_iff
  proof safe
    fix x assume x: "x \<in> set (show_int i)" and l: "is_line_terminator x"
    from all x have "is_digit x \<or> x = CHR ''-''" by blast
    from is_digit_no_special [OF this] l show False by blast
  qed
  have g: "good (show_int i)"
    unfolding good_def using nolt sp by (simp only: s list.sel) simp
  have j: "jtext (JNum i) = show_int i" by (simp add: jtext_def json_element_def)
  show ?thesis
    unfolding parses_back_def j using p g by simp
qed

lemma plain_parses_back: "plain v \<Longrightarrow> parses_back v"
proof (induction v rule: jsval.induct)
  case (JArr xs)
  then show ?case by (intro back_JArr) simp
next
  case (JObj fs)
  then show ?case by (intro back_JObj) (auto simp: snds.simps)
qed (simp_all add: back_JNull back_JBool back_JNum back_JStr)

subsection \<open>The round trip of plain parameters: the key\<close>

lemma lazy_hash_skip:
  "CHR ''['' \<notin> set cs \<Longrightarrow> \<not> list_ex is_line_terminator cs \<Longrightarrow> matches_params t \<Longrightarrow>
   lazy_hash h (cs @ t) = Some (h @ cs, t)"
proof (induction cs arbitrary: h)
  case Nil
  then show ?case by (cases t) (simp_all add: matches_params_def)
next
  case (Cons c cs)
  from Cons.prems(1) have "\<not> matches_params (c # cs @ t)" by (auto simp: matches_params_def)
  with Cons show ?case by simp
qed

lemma JSON_parse_back: "parses_back v \<Longrightarrow> JSON_parse (jtext v) = Inr v"
  using back_parse [of v "[]" "2 * length (jtext v) + 1"]
  by (simp add: JSON_parse_def skip_ws_def)

lemma matches_params_array:
  assumes "parses_back (JArr ps)"
  shows "matches_params (jtext (JArr ps))"
proof -
  have st: "map json_element (map json_stringify ps) = map jtext ps"
    "map (json_element \<circ> json_stringify) ps = map jtext ps"
    by (simp_all add: jtext_def)
  have jt: "jtext (JArr ps) = CHR ''['' # (commas (map jtext ps) @ '']'')"
    by (simp add: jtext_def json_element_def st)
  from assms have "\<not> list_ex is_line_terminator (jtext (JArr ps))"
    by (simp add: parses_back_def good_def)
  then have "\<not> list_ex is_line_terminator (commas (map jtext ps))"
    unfolding jt by simp
  then show ?thesis unfolding jt by (simp add: matches_params_def)
qed

text \<open>
  For a definition whose hash is not empty and has no \<open>[\<close> after its first character
  and no line terminator, and a tuple of plain values of the right length,
  \<open>parseCacheKey\<close> of the key that \<open>getCacheKey\<close> builds is the hash and the tuple.
\<close>

theorem plain_cache_key_round_trip:
  "expectNumParams cq = length ps \<Longrightarrow> \<forall>p \<in> set ps. plain p \<Longrightarrow> plain_hash (hash cq) \<Longrightarrow>
   \<exists>key. getCacheKey cq ps = Inr key \<and> parseCacheKey key = Inr (hash cq, JArr ps)"
proof -
  assume ar: "expectNumParams cq = length ps" and pl: "\<forall>p \<in> set ps. plain p"
    and ph: "plain_hash (hash cq)"
  from pl have "plain (JArr ps)" by simp
  then have b: "parses_back (JArr ps)" by (rule plain_parses_back)
  define t where "t = jtext (JArr ps)"
  from b have e: "EJSON_stringify (JArr ps) = t"
    by (simp add: EJSON_stringify_def parses_back_def t_def)
  from ar have k: "getCacheKey cq ps = Inr (''Q:'' @ hash cq @ t)"
    by (simp add: getCacheKey_def e)
  from ph obtain c cs where h: "hash cq = c # cs" and c: "\<not> is_line_terminator c"
    and cs: "CHR ''['' \<notin> set cs" "\<not> list_ex is_line_terminator cs"
    by (cases "hash cq") (auto simp: plain_hash_def)
  have mp: "matches_params t" unfolding t_def by (rule matches_params_array [OF b])
  then have tne: "t \<noteq> []" by (auto simp: matches_params_def)
  have "match_cache_key (''Q:'' @ hash cq @ t) = Some (hash cq, t)"
    using lazy_hash_skip [OF cs mp, of "[c]"] c by (simp add: match_cache_key_def h)
  moreover have "JSON_parse t = Inr (JArr ps)" unfolding t_def by (rule JSON_parse_back [OF b])
  ultimately have "parseCacheKey (''Q:'' @ hash cq @ t) = Inr (hash cq, JArr ps)"
    using tne by (simp add: parseCacheKey_def h)
  with k show ?thesis by blast
qed

end
